theory Spec2Isabelle
  imports Main
begin

section \<open>Library functions the pipes rely on\<close>

subsection \<open>path/filepath on a Unix host\<close>

text \<open>
  Both pipes build every path with \<open>filepath.Join\<close>, which drops empty elements, joins
  the rest with a slash and cleans the result. The functions below follow the
  Go standard library on a host whose separator is the slash.
\<close>

fun splitSlash :: "string \<Rightarrow> string list" where
  "splitSlash [] = [[]]"
| "splitSlash (c # cs) =
     (if c = CHR ''/'' then [] # splitSlash cs
      else (case splitSlash cs of [] \<Rightarrow> [[c]] | x # xs \<Rightarrow> (c # x) # xs))"

fun joinSlash :: "string list \<Rightarrow> string" where
  "joinSlash [] = []"
| "joinSlash [x] = x"
| "joinSlash (x # y # ys) = x @ CHR ''/'' # joinSlash (y # ys)"

definition rooted :: "string \<Rightarrow> bool" where
  "rooted p = (case p of [] \<Rightarrow> False | c # _ \<Rightarrow> c = CHR ''/'')"

text \<open>
  One element of the path against the elements kept so far (innermost first):
  empty elements and \<open>.\<close> vanish, \<open>..\<close> removes the element before it, is dropped at
  the root, and is kept at the start of a relative path.
\<close>

definition cleanStep :: "bool \<Rightarrow> string list \<Rightarrow> string \<Rightarrow> string list" where
  "cleanStep r stk c =
     (if c = [] \<or> c = ''.'' then stk
      else if c = ''..'' then
        (case stk of
           [] \<Rightarrow> if r then [] else [''..'']
         | t # ts \<Rightarrow> if t = ''..'' then ''..'' # stk else ts)
      else c # stk)"

definition Clean :: "string \<Rightarrow> string" where
  "Clean p =
     (let body = joinSlash (rev (foldl (cleanStep (rooted p)) [] (splitSlash p)))
      in if rooted p then CHR ''/'' # body
         else if body = [] then ''.'' else body)"

fun Join :: "string list \<Rightarrow> string" where
  "Join [] = []"
| "Join (e # es) = (if e = [] then Join es else Clean (joinSlash (e # es)))"

declare Join.simps [simp del]

definition stripSlashes :: "string \<Rightarrow> string" where
  "stripSlashes p = rev (dropWhile (\<lambda>c. c = CHR ''/'') (rev p))"

definition Base :: "string \<Rightarrow> string" where
  "Base path =
     (if path = [] then ''.''
      else let p = rev (takeWhile (\<lambda>c. c \<noteq> CHR ''/'') (rev (stripSlashes path)))
           in if p = [] then ''/'' else p)"

definition Dir :: "string \<Rightarrow> string" where
  "Dir path = Clean (rev (dropWhile (\<lambda>c. c \<noteq> CHR ''/'') (rev path)))"

subsection \<open>Decimal rendering of the %d verb\<close>

fun digits :: "nat \<Rightarrow> string" where
  "digits n =
     (if n < 10 then [''0123456789'' ! n]
      else digits (n div 10) @ [''0123456789'' ! (n mod 10)])"

declare digits.simps [simp del]

definition Itoa :: "int \<Rightarrow> string" where
  "Itoa i = (if i < 0 then CHR ''-'' # digits (nat (- i)) else digits (nat i))"

section \<open>Artifacts, errors and the outside world\<close>

subsection \<open>The artifact registry\<close>

text \<open>
  Modelled from the spec: the kinds of \<open>artifact.Type\<close>. Package \<open>artifact\<close> is not among
  the sources; the pipes name these eight kinds, and the data model of the spec lists the
  plain binary (the output of a build) and the uploadable binary as two different kinds.
\<close>

datatype artifact_type =
    UploadableArchive
  | UploadableBinary
  | Binary
  | LinuxPackage
  | Checksum
  | Signature
  | APK
  | APKIndex

text \<open>The fields of \<open>artifact.Artifact\<close> the two pipes read and write.\<close>

record artifact =
  Type :: artifact_type
  Name :: string
  Path :: string
  Goos :: string
  Goarch :: string
  Goarm :: string
  RepoDir :: string
  Extra :: "(string \<times> string) list"

type_synonym Filter = "artifact \<Rightarrow> bool"

text \<open>
  Modelled from the spec: the primitive predicates and the boolean combinators of package
  \<open>artifact\<close>, and the registry operations: \<open>Filter\<close> followed by \<open>List\<close> returns the
  artifacts for which the predicate holds, in registration order, and \<open>Add\<close> appends.
\<close>

definition ByGoos :: "string \<Rightarrow> Filter" where
  "ByGoos s a = (Goos a = s)"

definition ByGoarm :: "string \<Rightarrow> Filter" where
  "ByGoarm s a = (Goarm a = s)"

definition ByType :: "artifact_type \<Rightarrow> Filter" where
  "ByType t a = (Type a = t)"

definition And :: "Filter list \<Rightarrow> Filter" where
  "And fs a = list_all (\<lambda>f. f a) fs"

definition Or :: "Filter list \<Rightarrow> Filter" where
  "Or fs a = list_ex (\<lambda>f. f a) fs"

definition Filter :: "Filter \<Rightarrow> artifact list \<Rightarrow> artifact list" where
  "Filter f arts = filter f arts"

definition List :: "artifact list \<Rightarrow> artifact list" where
  "List arts = arts"

subsection \<open>Errors\<close>

text \<open>
  An error value of the program: the skip signal of package \<open>pipe\<close>, a sentinel made by
  \<open>errors.New\<close>, a formatted error (\<open>fmt.Errorf\<close>, \<open>errors.Errorf\<close>), an error handed
  back by the operating system, the template engine or the object store, and the
  combined error of a task group.
\<close>

datatype error =
    ErrSkip string
  | ErrorsNew string
  | Errorf string
  | External string
  | Combined "error list"

text \<open>
  Modelled from the spec: \<open>pipe.Skip\<close> and \<open>pipe.IsSkip\<close> (package \<open>pipe\<close> is not among
  the sources). A skip is the distinguishable signal of a stage that is not configured.
\<close>

definition Skip :: "string \<Rightarrow> error" where
  "Skip reason = ErrSkip reason"

fun IsSkip :: "error \<Rightarrow> bool" where
  "IsSkip (ErrSkip _) = True"
| "IsSkip _ = False"

definition ErrNoAlpineKeys :: error where
  "ErrNoAlpineKeys =
     ErrorsNew ''environment variables PACKAGER_PUBKEY and PACKAGER_PRIVKEY need to be set''"

subsection \<open>Configuration and context\<close>

text \<open>
  The configuration structs of package \<open>config\<close> are not among the sources; the records
  hold the fields the two pipes use, under the names the pipes use.
\<close>

record alpine =
  AlpineName :: string
  Root :: string
  Branch :: string
  Repository :: string
  Rel :: int
  Contributor :: string
  Maintainer :: string
  Description :: string
  URL :: string
  License :: string
  CheckFn :: string

record s3 =
  Bucket :: string
  Region :: string
  ACL :: string
  Folder :: string
  Profile :: string
  Endpoint :: string
  S3Artifacts :: "string list"

record build =
  BuildBinary :: string

record project =
  Alpine :: "alpine list"
  S3 :: "s3 list"
  Dist :: string
  Builds :: "build list"

text \<open>
  The release context. \<open>CheckPipe\<close> is a method of the context whose body is not among the
  sources; it is a parameter here. The artifact registry, which the program reaches
  through the context pointer and appends to, lives in the state below.
\<close>

record Context =
  Config :: project
  Version :: string
  Parallelism :: int
  CheckPipe :: "string \<Rightarrow> error option"

text \<open>The two package variables read from the environment when the program starts.\<close>

record env =
  pubKeyPath :: string
  privKeyPath :: string

subsection \<open>Calls that leave the program\<close>

text \<open>
  Every call to the operating system, to an external tool and to the object store is
  recorded with its arguments. \<open>CombinedOutput\<close> carries the command line, the
  entries added to the inherited environment and the working directory; \<open>PutObject\<close>
  carries bucket, key, the path of the opened body and the access-control setting.
\<close>

datatype call =
    Getwd
  | MkdirAll string
  | WriteFile string string
  | LookPath string
  | Mkdir string
  | Open string
  | Create string
  | Chmod string
  | Copy string string
  | CombinedOutput "string list" "string list" string
  | PutObject string string string string

text \<open>
  A reply is the value returned and the message of the error, if there is one. The
  outside world is any function from the calls made so far and the present call to a
  reply, so a reply may depend on everything that happened before.
\<close>

type_synonym reply = "string \<times> string option"

type_synonym outside = "(call \<times> reply) list \<Rightarrow> call \<Rightarrow> reply"

record world =
  Artifacts :: "artifact list"
  trace :: "(call \<times> reply) list"

type_synonym step = "world \<Rightarrow> error option \<times> world"

definition sys :: "outside \<Rightarrow> call \<Rightarrow> world \<Rightarrow> reply \<times> world" where
  "sys os c w = (let r = os (trace w) c in (r, w\<lparr>trace := trace w @ [(c, r)]\<rparr>))"

text \<open>A call whose error is returned as it is: \<open>if err != nil { return err }\<close>.\<close>

definition attempt :: "outside \<Rightarrow> call \<Rightarrow> step" where
  "attempt os c w =
     (case sys os c w of ((v, e), w') \<Rightarrow> (map_option External e, w'))"

text \<open>A step whose error is dropped by the caller.\<close>

definition ignoring :: "step \<Rightarrow> step" where
  "ignoring f w = (None, snd (f w))"

text \<open>
  An external command run with \<open>CombinedOutput\<close>; a failure is wrapped with the captured
  output by \<open>fmt.Errorf("%s:\n%s", err, string(output))\<close>.
\<close>

definition runCmd :: "outside \<Rightarrow> call \<Rightarrow> step" where
  "runCmd os c w =
     (case sys os c w of
        ((out, None), w') \<Rightarrow> (None, w')
      | ((out, Some m), w') \<Rightarrow> (Some (Errorf (m @ '':'' @ [CHR 0x0A] @ out)), w'))"

definition Add :: "artifact \<Rightarrow> step" where
  "Add a w = (None, w\<lparr>Artifacts := Artifacts w @ [a]\<rparr>)"

text \<open>Steps in sequence, returning at the first error.\<close>

fun seq :: "step list \<Rightarrow> step" where
  "seq [] w = (None, w)"
| "seq (f # fs) w =
     (case f w of (Some e, w') \<Rightarrow> (Some e, w') | (None, w') \<Rightarrow> seq fs w')"

subsection \<open>The bounded task group\<close>

text \<open>
  Modelled from the spec: package \<open>semerrgroup\<close> is not among the sources. The spec
  requires that a failing unit stops no other unit, that every scheduled unit runs to
  completion, and that \<open>Wait\<close> returns nil when no unit failed and otherwise one error
  combining every failure. The units of one group are run here one after the other in
  the order they were scheduled, which is the schedule of a group of limit one; the limit
  is kept as data.
\<close>

record group =
  limit :: int
  errs :: "error list"

definition New :: "int \<Rightarrow> group" where
  "New n = \<lparr>limit = n, errs = []\<rparr>"

definition Go :: "group \<Rightarrow> step \<Rightarrow> world \<Rightarrow> group \<times> world" where
  "Go g fn w =
     (case fn w of
        (None, w') \<Rightarrow> (g, w')
      | (Some e, w') \<Rightarrow> (g\<lparr>errs := errs g @ [e]\<rparr>, w'))"

definition Wait :: "group \<Rightarrow> error option" where
  "Wait g = (if errs g = [] then None else Some (Combined (errs g)))"

text \<open>The loop \<open>for ... { g.Go(...) }\<close> over the units of a fan-out.\<close>

fun GoAll :: "group \<Rightarrow> step list \<Rightarrow> world \<Rightarrow> group \<times> world" where
  "GoAll g [] w = (g, w)"
| "GoAll g (fn # fns) w = (case Go g fn w of (g', w') \<Rightarrow> GoAll g' fns w')"

section \<open>The Alpine pipe\<close>

definition apkBuildFileName :: string where
  "apkBuildFileName = ''APKBUILD''"

definition apkIndexFileName :: string where
  "apkIndexFileName = ''APKINDEX.tar.gz''"

definition abuildOutputDir :: string where
  "abuildOutputDir = ''dist''"

subsection \<open>Default\<close>

definition setDefaults :: "alpine \<Rightarrow> alpine" where
  "setDefaults a =
     (let a1 = (if Root a = [] then a\<lparr>Root := ''alpine''\<rparr> else a);
          a2 = (if Branch a1 = [] then a1\<lparr>Branch := ''edge''\<rparr> else a1)
      in if Repository a2 = [] then a2\<lparr>Repository := ''main''\<rparr> else a2)"

text \<open>
  The loop of \<open>Pipe.Default\<close> over the configured sections: each section gets its
  defaults in place, and the keys are checked inside the loop, after the defaults of the
  section at hand.
\<close>

fun DefaultLoop :: "env \<Rightarrow> alpine list \<Rightarrow> error option \<times> alpine list" where
  "DefaultLoop e [] = (None, [])"
| "DefaultLoop e (a # as) =
     (if pubKeyPath e = [] \<or> privKeyPath e = [] then (Some ErrNoAlpineKeys, setDefaults a # as)
      else (case DefaultLoop e as of (r, as') \<Rightarrow> (r, setDefaults a # as')))"

definition Default :: "env \<Rightarrow> Context \<Rightarrow> error option \<times> Context" where
  "Default e ctx =
     (case DefaultLoop e (Alpine (Config ctx)) of
        (r, as) \<Rightarrow> (r, ctx\<lparr>Config := (Config ctx)\<lparr>Alpine := as\<rparr>\<rparr>))"

subsection \<open>The build descriptor\<close>

record apkBuildData =
  Info :: alpine
  Binaries :: "string \<rightharpoonup> string"
  DataVersion :: string
  ProjectDir :: string
  MakeDepends :: string

text \<open>
  Parsing and executing \<open>apkBuildTemplate\<close> is the work of \<open>text/template\<close>; the engine
  is a parameter that returns the bytes written and the message of its error, if any.
\<close>

type_synonym renderer = "apkBuildData \<Rightarrow> string \<times> string option"

definition buildApkBuildFile :: "renderer \<Rightarrow> apkBuildData \<Rightarrow> string \<times> error option" where
  "buildApkBuildFile render data =
     (case render data of (out, e) \<Rightarrow> (out, map_option External e))"

definition generateApkBuildFile ::
  "renderer \<Rightarrow> Context \<Rightarrow> alpine \<Rightarrow> string \<times> error option" where
  "generateApkBuildFile render ctx info =
     (let binaries =
            foldl (\<lambda>m b. let binary = Base (BuildBinary b)
                         in m(binary \<mapsto> Join [''$pkgarch'', binary]))
              Map.empty (Builds (Config ctx))
      in buildApkBuildFile render
           \<lparr>Info = info, Binaries = binaries, DataVersion = Version ctx,
            ProjectDir = [], MakeDepends = []\<rparr>)"

subsection \<open>Run\<close>

text \<open>
  The switch at the head of the per-binary loop of \<open>Pipe.Run\<close>: the Go architecture
  name of the binary, rewritten to the name the Alpine tools use.
\<close>

definition alpineArch :: "string \<Rightarrow> string" where
  "alpineArch arch =
     (if arch = ''386'' then ''x86''
      else if arch = ''amd64'' then ''x86_64''
      else arch)"

text \<open>The binaries \<open>Pipe.Run\<close> selects from the registry.\<close>

definition eligible :: "artifact list \<Rightarrow> artifact list" where
  "eligible arts =
     List (Filter (And [ByGoos ''linux'', ByGoarm [], ByType Binary]) arts)"

text \<open>
  The body of the inner loop of \<open>Pipe.Run\<close>, for one selected binary. Its parameters are
  the variables of the enclosing loop body.
\<close>

definition packageBinary ::
  "outside \<Rightarrow> Context \<Rightarrow> alpine \<Rightarrow> string \<Rightarrow> string \<Rightarrow> string \<Rightarrow> string \<Rightarrow> string \<Rightarrow>
   artifact \<Rightarrow> step" where
  "packageBinary os ctx alp pwd localPath localPathAbs repoPath pubKeyName binArtifact =
     (let arch = alpineArch (Goarch binArtifact);
          artifactRepoPath = Join [repoPath, arch];
          binDir = Join [localPath, arch];
          destPath = Join [binDir, Base (Path binArtifact)];
          artifactMeta = [(''AlpineArch'', arch)];
          abuildOutputPath = Join [localPath, abuildOutputDir, arch];
          apkFileName =
            AlpineName alp @ ''-'' @ Version ctx @ ''-r'' @ Itoa (Rel alp) @ ''.apk'';
          apkFilePath = Join [abuildOutputPath, apkFileName];
          apkIndexPath = Join [abuildOutputPath, apkIndexFileName];
          apkIndexPathAbs = Join [pwd, apkIndexPath]
      in seq
          [attempt os (Mkdir binDir),
           attempt os (Open (Path binArtifact)),
           attempt os (Create destPath),
           ignoring (attempt os (Chmod destPath)),
           attempt os (Copy destPath (Path binArtifact)),
           runCmd os
             (CombinedOutput [''abuild'', ''-P'', localPathAbs, ''-r''] [''CBUILD='' @ arch]
                localPath),
           Add \<lparr>Type = APK, Name = apkFileName, Path = apkFilePath, Goos = ''linux'',
                Goarch = Goarch binArtifact, Goarm = [], RepoDir = artifactRepoPath,
                Extra = artifactMeta\<rparr>,
           runCmd os
             (CombinedOutput [''abuild-sign'', apkIndexPathAbs, ''-p'', pubKeyName] []
                localPath),
           Add \<lparr>Type = APKIndex, Name = apkIndexFileName, Path = apkIndexPath,
                Goos = ''linux'', Goarch = Goarch binArtifact, Goarm = [],
                RepoDir = artifactRepoPath, Extra = artifactMeta\<rparr>])"

text \<open>
  The body of the outer loop of \<open>Pipe.Run\<close>, for one configured section. The error of
  \<open>ioutil.WriteFile\<close> is assigned and then overwritten by the result of
  \<open>exec.LookPath\<close> before anything reads it.
\<close>

definition runAlpine :: "outside \<Rightarrow> env \<Rightarrow> renderer \<Rightarrow> Context \<Rightarrow> alpine \<Rightarrow> step" where
  "runAlpine os e render ctx alp w =
     (let artifacts = eligible (Artifacts w) in
      case sys os Getwd w of
        ((pwd, Some m), w1) \<Rightarrow> (Some (External m), w1)
      | ((pwd, None), w1) \<Rightarrow>
          (let localPath = Join [Dist (Config ctx), ''alpine-'' @ AlpineName alp];
               localPathAbs = Join [pwd, localPath]
           in case attempt os (MkdirAll localPath) w1 of
                (Some err, w2) \<Rightarrow> (Some err, w2)
              | (None, w2) \<Rightarrow>
                  (case generateApkBuildFile render ctx alp of
                     (apkBuild, Some err) \<Rightarrow> (Some err, w2)
                   | (apkBuild, None) \<Rightarrow>
                       (let repoPath = Join [Root alp, Branch alp, Repository alp];
                            pubKeyName = Dir (pubKeyPath e)
                        in seq
                            (ignoring
                               (attempt os
                                  (WriteFile (Join [localPath, apkBuildFileName]) apkBuild))
                             # attempt os (LookPath ''abuild'')
                             # map (packageBinary os ctx alp pwd localPath localPathAbs
                                      repoPath pubKeyName)
                                 artifacts)
                            w2))))"

definition Run :: "outside \<Rightarrow> env \<Rightarrow> renderer \<Rightarrow> Context \<Rightarrow> step" where
  "Run os e render ctx w =
     (if Alpine (Config ctx) = [] then (Some (Skip ''alpine section is not configured''), w)
      else seq (map (runAlpine os e render ctx) (Alpine (Config ctx))) w)"

section \<open>The S3 pipe\<close>

definition artifactTypes :: "string \<rightharpoonup> artifact_type" where
  "artifactTypes =
     [''archive'' \<mapsto> UploadableArchive,
      ''binary'' \<mapsto> UploadableBinary,
      ''nfpm'' \<mapsto> LinuxPackage,
      ''checksum'' \<mapsto> Checksum,
      ''signature'' \<mapsto> Signature,
      ''apk'' \<mapsto> APK,
      ''apkindex'' \<mapsto> APKIndex]"

text \<open>
  The loop of \<open>upload\<close> that turns the configured kind names into filters; it returns at
  the first name that is not a key of \<open>artifactTypes\<close>.
\<close>

fun filtersOf :: "string list \<Rightarrow> Filter list \<Rightarrow> error + Filter list" where
  "filtersOf [] filters = Inr filters"
| "filtersOf (artTypeStr # rest) filters =
     (case artifactTypes artTypeStr of
        Some artType \<Rightarrow> filtersOf rest (filters @ [ByType artType])
      | None \<Rightarrow> Inl (Errorf (''unknown artifact type: '' @ artTypeStr)))"

text \<open>
  The template engine of package \<open>tmpl\<close> is not among the sources; \<open>Apply\<close> is a
  parameter that returns the message of its error or the resolved string.
\<close>

type_synonym applier = "string \<Rightarrow> string + string"

text \<open>One unit of the upload fan-out: open the file, compute the key, put the object.\<close>

definition uploadUnit :: "outside \<Rightarrow> string \<Rightarrow> string \<Rightarrow> s3 \<Rightarrow> artifact \<Rightarrow> step" where
  "uploadUnit os bucket folder conf a =
     seq [attempt os (Open (Path a)),
          attempt os
            (PutObject bucket (Join [folder, RepoDir a, Name a]) (Path a) (ACL conf))]"

text \<open>
  \<open>upload\<close> for one destination. Building the client (\<open>newS3Svc\<close>) makes no call that
  is recorded.
\<close>

definition upload :: "outside \<Rightarrow> applier \<Rightarrow> Context \<Rightarrow> s3 \<Rightarrow> step" where
  "upload os apply ctx conf w =
     (case apply (Bucket conf) of
        Inl m \<Rightarrow> (Some (External m), w)
      | Inr bucket \<Rightarrow>
          (case apply (Folder conf) of
             Inl m \<Rightarrow> (Some (External m), w)
           | Inr folder \<Rightarrow>
               (case filtersOf (S3Artifacts conf) [] of
                  Inl err \<Rightarrow> (Some err, w)
                | Inr filters \<Rightarrow>
                    (case GoAll (New (Parallelism ctx))
                            (map (uploadUnit os bucket folder conf)
                               (List (Filter (Or filters) (Artifacts w))))
                            w of
                       (g, w') \<Rightarrow> (Wait g, w')))))"

definition Publish :: "outside \<Rightarrow> applier \<Rightarrow> Context \<Rightarrow> step" where
  "Publish os apply ctx w =
     (if S3 (Config ctx) = [] then (Some (Skip ''s3 section is not configured''), w)
      else case CheckPipe ctx ''s3'' of
             Some err \<Rightarrow> (Some err, w)
           | None \<Rightarrow>
               (case GoAll (New (Parallelism ctx))
                       (map (upload os apply ctx) (S3 (Config ctx))) w of
                  (g, w') \<Rightarrow> (Wait g, w')))"

section \<open>Observations used in the statements\<close>

text \<open>What a run added: the calls made and the artifacts registered between two states.\<close>

definition since :: "world \<Rightarrow> world \<Rightarrow> (call \<times> reply) list" where
  "since w w' = drop (length (trace w)) (trace w')"

definition registered :: "world \<Rightarrow> world \<Rightarrow> artifact list" where
  "registered w w' = drop (length (Artifacts w)) (Artifacts w')"

text \<open>An external tool, named by the head of its command line, ran and exited cleanly.\<close>

fun toolSucceeded :: "string \<Rightarrow> (call \<times> reply) list \<Rightarrow> bool" where
  "toolSucceeded tool [] = False"
| "toolSucceeded tool ((CombinedOutput argv ev dir, (out, e)) # rest) =
     ((take 1 argv = [tool] \<and> e = None) \<or> toolSucceeded tool rest)"
| "toolSucceeded tool (_ # rest) = toolSucceeded tool rest"

fun toolFailed :: "string \<Rightarrow> (call \<times> reply) list \<Rightarrow> bool" where
  "toolFailed tool [] = False"
| "toolFailed tool ((CombinedOutput argv ev dir, (out, e)) # rest) =
     ((take 1 argv = [tool] \<and> e \<noteq> None) \<or> toolFailed tool rest)"
| "toolFailed tool (_ # rest) = toolFailed tool rest"

text \<open>
  A state reached from another by appending: the artifacts registered in between all
  satisfy \<open>Q\<close> and the calls made in between all satisfy \<open>T\<close>.
\<close>

definition grows ::
  "(artifact \<Rightarrow> bool) \<Rightarrow> (call \<times> reply \<Rightarrow> bool) \<Rightarrow> world \<Rightarrow> world \<Rightarrow> bool" where
  "grows Q T w w' =
     (Artifacts w' = Artifacts w @ registered w w' \<and> trace w' = trace w @ since w w' \<and>
      list_all Q (registered w w') \<and> list_all T (since w w'))"

text \<open>A result that is not the skip signal.\<close>

fun noSkip :: "error option \<Rightarrow> bool" where
  "noSkip None = True"
| "noSkip (Some err) = (\<not> IsSkip err)"

text \<open>
  Invariant of the element stack of \<open>Clean\<close>: names without a slash, none of them empty
  or a dot, above a run of \<open>..\<close> that is empty in a rooted path.
\<close>

definition plain :: "string \<Rightarrow> bool" where
  "plain c = (c \<noteq> [] \<and> c \<noteq> ''.'' \<and> c \<noteq> ''..'' \<and> CHR ''/'' \<notin> set c)"

fun stackOK :: "bool \<Rightarrow> string list \<Rightarrow> bool" where
  "stackOK r [] = True"
| "stackOK r (c # cs) =
     (if c = ''..'' then \<not> r \<and> list_all (\<lambda>d. d = ''..'') cs else plain c \<and> stackOK r cs)"

text \<open>The last stage of \<open>Clean\<close>: the kept elements written out as a path.\<close>

definition renderPath :: "bool \<Rightarrow> string list \<Rightarrow> string" where
  "renderPath r stk = (let body = joinSlash (rev stk)
      in if r then CHR ''/'' # body
         else if body = [] then ''.'' else body)"

text \<open>
  What \<open>Pipe.Run\<close> registers for one section and one selected binary: a package or an
  index for linux that keeps the Go architecture of the binary, with the Alpine
  architecture in the metadata, as the last element of the repository path, and as the
  directory of the file under the output directory of the section.
\<close>

definition packagedFrom :: "Context \<Rightarrow> alpine \<Rightarrow> artifact \<Rightarrow> artifact \<Rightarrow> bool" where
  "packagedFrom ctx alp bin a =
     ((Type a = APK \<or> Type a = APKIndex) \<and> Goos a = ''linux'' \<and> Goarch a = Goarch bin \<and>
      Goarm a = [] \<and> Extra a = [(''AlpineArch'', alpineArch (Goarch bin))] \<and>
      RepoDir a =
        Join [Root alp, Branch alp, Repository alp, alpineArch (Goarch bin)] \<and>
      Path a =
        Join [Dist (Config ctx), ''alpine-'' @ AlpineName alp, ''dist'',
              alpineArch (Goarch bin), Name a])"

text \<open>A recorded call that, if it opens a file, opens the file of one of the given artifacts.\<close>

fun opensOnly :: "artifact list \<Rightarrow> call \<times> reply \<Rightarrow> bool" where
  "opensOnly E (Open p, rep) = (p \<in> Path ` set E)"
| "opensOnly E (Copy dst p, rep) = (p \<in> Path ` set E)"
| "opensOnly E _ = True"

text \<open>A recorded call that is not the run of an external command.\<close>

fun notCommand :: "call \<times> reply \<Rightarrow> bool" where
  "notCommand (CombinedOutput argv ev dir, rep) = False"
| "notCommand _ = True"

text \<open>Observations of an upload: the kinds of call, the errors replied, the uploads done.\<close>

fun isOpen :: "call \<Rightarrow> bool" where
  "isOpen (Open p) = True"
| "isOpen _ = False"

fun isPut :: "call \<Rightarrow> bool" where
  "isPut (PutObject b k body acl) = True"
| "isPut _ = False"

definition putOK :: "call \<times> reply \<Rightarrow> bool" where
  "putOK x = (isPut (fst x) \<and> snd (snd x) = None)"

fun failures :: "(call \<times> reply) list \<Rightarrow> error list" where
  "failures [] = []"
| "failures ((c, v, None) # rest) = failures rest"
| "failures ((c, v, Some m) # rest) = External m # failures rest"

text \<open>
  The result of each unit of a fan-out, the units run in order, and the value \<open>Wait\<close>
  makes of such results.
\<close>

fun outcomes :: "step list \<Rightarrow> world \<Rightarrow> error option list" where
  "outcomes [] w = []"
| "outcomes (fn # fns) w = fst (fn w) # outcomes fns (snd (fn w))"

text \<open>
  The state after every unit of a fan-out has run to its end, each one from the state
  its predecessor left, whatever the predecessor returned.
\<close>

fun afterAll :: "step list \<Rightarrow> world \<Rightarrow> world" where
  "afterAll [] w = w"
| "afterAll (fn # fns) w = afterAll fns (snd (fn w))"

fun errorsOf :: "error option list \<Rightarrow> error list" where
  "errorsOf [] = []"
| "errorsOf (None # rs) = errorsOf rs"
| "errorsOf (Some err # rs) = err # errorsOf rs"

definition combine :: "error list \<Rightarrow> error option" where
  "combine es = (if es = [] then None else Some (Combined es))"

text \<open>A destination for which the templates resolve, the kinds are known and nothing matches.\<close>

definition nothingToUpload :: "applier \<Rightarrow> world \<Rightarrow> s3 \<Rightarrow> bool" where
  "nothingToUpload apply w conf =
     (case (apply (Bucket conf), apply (Folder conf), filtersOf (S3Artifacts conf) []) of
        (Inr b, Inr f, Inr fs) \<Rightarrow> List (Filter (Or fs) (Artifacts w)) = []
      | _ \<Rightarrow> False)"

section \<open>Example inputs\<close>

text \<open>
  One Alpine section with its defaults set, one linux/amd64 binary in the registry, and an
  outside world in which every call succeeds and the working directory is \<open>/w\<close>.
\<close>

definition alp0 :: alpine where
  "alp0 = \<lparr>AlpineName = ''app'', Root = ''alpine'', Branch = ''edge'', Repository = ''main'',
            Rel = 0, Contributor = [], Maintainer = [], Description = [], URL = [],
            License = [], CheckFn = []\<rparr>"

definition ctx0 :: Context where
  "ctx0 = \<lparr>Config = \<lparr>Alpine = [alp0], S3 = [], Dist = ''dist'',
                       Builds = [\<lparr>BuildBinary = ''app''\<rparr>]\<rparr>,
            Version = ''1.2.3'', Parallelism = 4, CheckPipe = (\<lambda>_. None)\<rparr>"

definition bin0 :: artifact where
  "bin0 = \<lparr>Type = Binary, Name = ''app'', Path = ''dist/linux_amd64/app'', Goos = ''linux'',
            Goarch = ''amd64'', Goarm = [], RepoDir = [], Extra = []\<rparr>"

definition env0 :: env where
  "env0 = \<lparr>pubKeyPath = ''/keys/k.pub'', privKeyPath = ''/keys/k''\<rparr>"

definition render0 :: renderer where
  "render0 d = (''pkgname=app'', None)"

definition world0 :: world where
  "world0 = \<lparr>Artifacts = [bin0], trace = []\<rparr>"

definition os_ok :: outside where
  "os_ok h c = (case c of Getwd \<Rightarrow> (''/w'', None) | _ \<Rightarrow> ([], None))"

text \<open>The same world, except that writing a file fails.\<close>

definition os_nowrite :: outside where
  "os_nowrite h c =
     (case c of
        Getwd \<Rightarrow> (''/w'', None)
      | WriteFile p d \<Rightarrow> ([], Some ''disk full'')
      | _ \<Rightarrow> ([], None))"

text \<open>An environment in which the public key path is not set.\<close>

definition env_nokey :: env where
  "env_nokey = \<lparr>pubKeyPath = [], privKeyPath = ''/keys/k''\<rparr>"

text \<open>An uploadable binary for linux with no ARM variant.\<close>

definition ubin0 :: artifact where
  "ubin0 = \<lparr>Type = UploadableBinary, Name = ''app'', Path = ''dist/app_linux_amd64'',
             Goos = ''linux'', Goarch = ''amd64'', Goarm = [], RepoDir = [], Extra = []\<rparr>"

text \<open>The same world, except that the signing tool exits with an error.\<close>

definition os_nosign :: outside where
  "os_nosign h c =
     (case c of
        Getwd \<Rightarrow> (''/w'', None)
      | CombinedOutput argv ev dir \<Rightarrow>
          (if take 1 argv = [''abuild-sign''] then (''no key'', Some ''exit status 1'')
           else ([], None))
      | _ \<Rightarrow> ([], None))"

text \<open>
  A template engine that resolves the version placeholder of one destination and rejects
  an unclosed action.
\<close>

definition apply0 :: applier where
  "apply0 t =
     (if t = ''releases/{{.Version}}'' then Inr ''releases/1.2.3''
      else if t = ''{{'' then Inl ''template: unclosed action''
      else Inr t)"

definition conf0 :: s3 where
  "conf0 = \<lparr>Bucket = ''bucket'', Region = ''us-east-1'', ACL = ''private'',
             Folder = ''releases/{{.Version}}'', Profile = [], Endpoint = [],
             S3Artifacts = [''archive'']\<rparr>"

text \<open>A destination with a kind outside the vocabulary and a bucket that does not parse.\<close>

definition conf_bad :: s3 where
  "conf_bad = \<lparr>Bucket = ''{{'', Region = ''us-east-1'', ACL = ''private'',
                Folder = ''releases'', Profile = [], Endpoint = [],
                S3Artifacts = [''deb'']\<rparr>"

definition archive :: "string \<Rightarrow> artifact" where
  "archive n = \<lparr>Type = UploadableArchive, Name = n, Path = ''dist/'' @ n, Goos = ''linux'',
                 Goarch = ''amd64'', Goarm = [], RepoDir = [], Extra = []\<rparr>"

text \<open>
  Five archives in the registry; the file of the second cannot be opened and the upload
  of the fourth is refused.
\<close>

definition world5 :: world where
  "world5 = \<lparr>Artifacts = [archive ''a1'', archive ''a2'', archive ''a3'', archive ''a4'',
                       archive ''a5''],
          trace = []\<rparr>"

definition os_s3 :: outside where
  "os_s3 h c =
     (case c of
        Open p \<Rightarrow> if p = ''dist/a2'' then ([], Some ''open dist/a2: no such file'')
                  else ([], None)
      | PutObject b k body acl \<Rightarrow>
          if body = ''dist/a4'' then ([], Some ''RequestError: send request failed'')
          else ([], None)
      | _ \<Rightarrow> ([], None))"

text \<open>One archive named as in the spec's example, and a registry that holds it.\<close>

definition world1 :: world where
  "world1 = \<lparr>Artifacts = [bin0, \<lparr>Type = UploadableArchive, Name = ''app_linux_amd64'',
                              Path = ''dist/app_linux_amd64'', Goos = ''linux'',
                              Goarch = ''amd64'', Goarm = [], RepoDir = [], Extra = []\<rparr>],
          trace = []\<rparr>"

definition ctx_s3 :: Context where
  "ctx_s3 = \<lparr>Config = \<lparr>Alpine = [], S3 = [conf0], Dist = ''dist'', Builds = []\<rparr>,
              Version = ''1.2.3'', Parallelism = 4, CheckPipe = (\<lambda>_. None)\<rparr>"

section \<open>Verified properties\<close>

subsection \<open>Steps and what they append\<close>


lemma sys_eq: "sys os c w = (os (trace w) c, w\<lparr>trace := trace w @ [(c, os (trace w) c)]\<rparr>)"
  by (simp add: sys_def Let_def)

lemma growsI:
  "Artifacts w' = Artifacts w @ na \<Longrightarrow> trace w' = trace w @ nt \<Longrightarrow> list_all Q na \<Longrightarrow>
   list_all T nt \<Longrightarrow> grows Q T w w'"
  by (simp add: grows_def registered_def since_def)

lemma growsD:
  "grows Q T w w' \<Longrightarrow>
   \<exists>na nt. Artifacts w' = Artifacts w @ na \<and> trace w' = trace w @ nt \<and> list_all Q na \<and>
     list_all T nt"
  unfolding grows_def by blast

lemma grows_refl: "grows Q T w w"
  by (rule growsI [of _ _ "[]" "[]"]) simp_all

lemma grows_trans:
  assumes "grows Q T w w1" and "grows Q T w1 w2"
  shows "grows Q T w w2"
proof -
  from growsD [OF assms(1)] obtain na nt where
    a: "Artifacts w1 = Artifacts w @ na" "trace w1 = trace w @ nt" "list_all Q na" "list_all T nt"
    by blast
  from growsD [OF assms(2)] obtain nb nu where
    b: "Artifacts w2 = Artifacts w1 @ nb" "trace w2 = trace w1 @ nu" "list_all Q nb" "list_all T nu"
    by blast
  show ?thesis
    by (rule growsI [of _ _ "na @ nb" "nt @ nu"]) (simp_all add: a b)
qed

lemma grows_mono:
  assumes "grows Q T w w'" and "\<And>a. Q a \<Longrightarrow> Q' a" and "\<And>c. T c \<Longrightarrow> T' c"
  shows "grows Q' T' w w'"
  using assms unfolding grows_def list_all_iff by blast

lemma grows_attempt:
  assumes "attempt os c w = (r, w')" and "\<And>rep. T (c, rep)"
  shows "grows Q T w w'"
  using assms(1)
  by (intro growsI [of _ _ "[]" "[(c, os (trace w) c)]"])
     (auto simp: attempt_def sys_eq assms(2) split: prod.splits)

lemma grows_runCmd:
  assumes "runCmd os c w = (r, w')" and "\<And>rep. T (c, rep)"
  shows "grows Q T w w'"
  using assms(1)
  by (intro growsI [of _ _ "[]" "[(c, os (trace w) c)]"])
     (auto simp: runCmd_def sys_eq assms(2) split: prod.splits option.splits)

lemma grows_ignoring:
  assumes "ignoring f w = (r, w')" and "\<And>r1 w1. f w = (r1, w1) \<Longrightarrow> grows Q T w w1"
  shows "grows Q T w w'"
  using assms by (cases "f w") (auto simp: ignoring_def)

lemma grows_Add:
  assumes "Add a w = (r, w')" and "Q a"
  shows "grows Q T w w'"
  using assms
  by (intro growsI [of _ _ "[a]" "[]"]) (auto simp: Add_def)

lemma seq_grows:
  assumes "\<And>f w r w'. f \<in> set fs \<Longrightarrow> I w \<Longrightarrow> f w = (r, w') \<Longrightarrow> I w' \<and> grows Q T w w'"
    and "I w" and "seq fs w = (r, w')"
  shows "I w' \<and> grows Q T w w'"
  using assms
proof (induction fs arbitrary: w)
  case Nil
  then show ?case by (simp add: grows_refl)
next
  case (Cons f fs)
  obtain r1 w1 where f: "f w = (r1, w1)" by (cases "f w")
  have step: "I w1 \<and> grows Q T w w1"
    using Cons.prems(1) [of f w r1 w1] Cons.prems(2) f by simp
  show ?case
  proof (cases r1)
    case None
    then have "seq fs w1 = (r, w')" using Cons.prems(3) f by simp
    then have s: "seq fs w1 = (r, w')" .
    have "I w' \<and> grows Q T w1 w'"
    proof (rule Cons.IH [OF _ _ s])
      show "I w1" using step by simp
    next
      fix g v q v'
      assume "g \<in> set fs" "I v" "g v = (q, v')"
      then show "I v' \<and> grows Q T v v'"
        using Cons.prems(1) [of g v q v'] by simp
    qed
    then show ?thesis using step grows_trans by blast
  next
    case (Some a)
    then have "w' = w1" using Cons.prems(3) f by simp
    then show ?thesis using step by simp
  qed
qed

lemma seq_noSkip:
  assumes "\<And>f w. f \<in> set fs \<Longrightarrow> noSkip (fst (f w))"
  shows "noSkip (fst (seq fs w))"
  using assms
proof (induction fs arbitrary: w)
  case Nil
  then show ?case by simp
next
  case (Cons f fs)
  obtain r1 w1 where f: "f w = (r1, w1)" by (cases "f w")
  show ?case
  proof (cases r1)
    case None
    then show ?thesis using Cons.IH [of w1] Cons.prems f by simp
  next
    case (Some a)
    then show ?thesis using Cons.prems [of f w] f by simp
  qed
qed



subsection \<open>Joining paths\<close>


lemma splitSlash_nonempty: "splitSlash p \<noteq> []"
  by (induction p) (auto split: list.splits)

lemma splitSlash_append:
  "splitSlash (a @ CHR ''/'' # b) = splitSlash a @ splitSlash b"
proof (induction a)
  case Nil
  then show ?case by simp
next
  case (Cons c a)
  then show ?case
    using splitSlash_nonempty [of a] by (cases "splitSlash a") auto
qed

lemma splitSlash_noslash: "CHR ''/'' \<notin> set x \<Longrightarrow> splitSlash x = [x]"
  by (induction x) auto

lemma splitSlash_elems: "x \<in> set (splitSlash p) \<Longrightarrow> CHR ''/'' \<notin> set x"
proof (induction p arbitrary: x)
  case Nil
  then show ?case by simp
next
  case (Cons c p)
  then show ?case
    using splitSlash_nonempty [of p]
    by (cases "splitSlash p") (auto split: if_splits)
qed

lemma splitSlash_joinSlash:
  "xs \<noteq> [] \<Longrightarrow> list_all (\<lambda>x. CHR ''/'' \<notin> set x) xs \<Longrightarrow> splitSlash (joinSlash xs) = xs"
proof (induction xs rule: joinSlash.induct)
  case 1
  then show ?case by simp
next
  case (2 x)
  then show ?case by (simp add: splitSlash_noslash)
next
  case (3 x y ys)
  then show ?case by (simp add: splitSlash_append splitSlash_noslash)
qed

lemma joinSlash_append:
  "as \<noteq> [] \<Longrightarrow> bs \<noteq> [] \<Longrightarrow> joinSlash (as @ bs) = joinSlash as @ CHR ''/'' # joinSlash bs"
proof (induction as rule: joinSlash.induct)
  case 1
  then show ?case by simp
next
  case (2 x)
  then show ?case by (cases bs) simp_all
next
  case (3 x y ys)
  then show ?case by simp
qed

lemma all_dotdot_stackOK: "\<not> r \<Longrightarrow> list_all (\<lambda>d. d = ''..'') cs \<Longrightarrow> stackOK r cs"
  by (induction cs) auto

lemma stackOK_tl: "stackOK r (c # cs) \<Longrightarrow> stackOK r cs"
  by (auto simp: all_dotdot_stackOK split: if_splits)

lemma cleanStep_ok:
  assumes "stackOK r stk" and "CHR ''/'' \<notin> set c"
  shows "stackOK r (cleanStep r stk c)"
proof (cases stk)
  case Nil
  then show ?thesis using assms by (auto simp: plain_def cleanStep_def)
next
  case (Cons t ts)
  then show ?thesis using assms stackOK_tl [of r t ts]
    by (auto simp: plain_def cleanStep_def split: if_splits)
qed

lemma foldl_cleanStep_ok:
  "stackOK r stk \<Longrightarrow> list_all (\<lambda>c. CHR ''/'' \<notin> set c) cs \<Longrightarrow>
   stackOK r (foldl (cleanStep r) stk cs)"
proof (induction cs arbitrary: stk)
  case Nil
  then show ?case by simp
next
  case (Cons c cs)
  then show ?case using cleanStep_ok [of r stk c] by simp
qed

lemma comps_ok: "stackOK (rooted p) (foldl (cleanStep (rooted p)) [] (splitSlash p))"
  by (rule foldl_cleanStep_ok) (simp_all add: list_all_iff splitSlash_elems)

lemma cleanStep_empty [simp]: "cleanStep r stk [] = stk"
  by (simp add: cleanStep_def)

lemma cleanStep_dot [simp]: "cleanStep r stk ''.'' = stk"
  by (simp add: cleanStep_def)

lemma stackOK_push: "stackOK r (c # cs) \<Longrightarrow> cleanStep r cs c = c # cs"
  by (cases cs) (auto simp: plain_def cleanStep_def split: if_splits)

lemma replay: "stackOK r stk \<Longrightarrow> foldl (cleanStep r) [] (rev stk) = stk"
proof (induction stk)
  case Nil
  then show ?case by simp
next
  case (Cons c cs)
  have "foldl (cleanStep r) [] (rev cs) = cs"
    using Cons.IH stackOK_tl [OF Cons.prems] by simp
  then show ?case using stackOK_push [OF Cons.prems] by simp
qed

lemma stackOK_noslash: "stackOK r stk \<Longrightarrow> list_all (\<lambda>x. CHR ''/'' \<notin> set x) stk"
proof (induction stk)
  case Nil
  then show ?case by simp
next
  case (Cons c cs)
  then show ?case
    using stackOK_tl [OF Cons.prems] by (auto simp: plain_def split: if_splits)
qed

lemma stackOK_nonnull: "stackOK r stk \<Longrightarrow> list_all (\<lambda>x. x \<noteq> []) stk"
proof (induction stk)
  case Nil
  then show ?case by simp
next
  case (Cons c cs)
  then show ?case
    using stackOK_tl [OF Cons.prems] by (auto simp: plain_def split: if_splits)
qed

lemma joinSlash_hd:
  "xs \<noteq> [] \<Longrightarrow> hd xs \<noteq> [] \<Longrightarrow> joinSlash xs \<noteq> [] \<and> hd (joinSlash xs) = hd (hd xs)"
  by (induction xs rule: joinSlash.induct) auto

lemma Clean_render: "Clean p = renderPath (rooted p) (foldl (cleanStep (rooted p)) [] (splitSlash p))"
  by (simp add: Clean_def renderPath_def)

lemma renderPath_facts:
  assumes "stackOK r stk"
  shows "renderPath r stk \<noteq> []" and "rooted (renderPath r stk) = r"
    and "foldl (cleanStep r) [] (splitSlash (renderPath r stk)) = stk"
proof -
  have ns: "list_all (\<lambda>x. CHR ''/'' \<notin> set x) (rev stk)"
    using stackOK_noslash [OF assms] by (simp add: list_all_iff)
  have nn: "list_all (\<lambda>x. x \<noteq> []) (rev stk)"
    using stackOK_nonnull [OF assms] by (simp add: list_all_iff)
  show "renderPath r stk \<noteq> []" by (simp add: renderPath_def Let_def)
  show "rooted (renderPath r stk) = r"
  proof (cases "stk = []")
    case True
    then show ?thesis by (simp add: renderPath_def Let_def rooted_def)
  next
    case False
    then have h: "rev stk \<noteq> []" "hd (rev stk) \<noteq> []" "CHR ''/'' \<notin> set (hd (rev stk))"
      using nn ns by (simp_all add: list_all_iff hd_rev)
    from joinSlash_hd [OF h(1,2)]
    have j: "joinSlash (rev stk) \<noteq> []" "hd (joinSlash (rev stk)) = hd (hd (rev stk))"
      by simp_all
    have "hd (hd (rev stk)) \<in> set (hd (rev stk))" using h(2) by simp
    then have "hd (joinSlash (rev stk)) \<noteq> CHR ''/''" using h(3) j(2) by metis
    then have "\<not> rooted (joinSlash (rev stk))"
      using j(1) by (cases "joinSlash (rev stk)") (simp_all add: rooted_def)
    then show ?thesis using j(1) by (cases r) (simp_all add: renderPath_def Let_def rooted_def)
  qed
  show "foldl (cleanStep r) [] (splitSlash (renderPath r stk)) = stk"
  proof (cases "stk = []")
    case True
    then show ?thesis by (simp add: renderPath_def Let_def)
  next
    case False
    then have h: "rev stk \<noteq> []" "hd (rev stk) \<noteq> []"
      using nn by (simp_all add: list_all_iff hd_rev)
    have s: "splitSlash (joinSlash (rev stk)) = rev stk"
      using splitSlash_joinSlash [OF h(1) ns] .
    have j: "joinSlash (rev stk) \<noteq> []" using joinSlash_hd [OF h] by simp
    show ?thesis using s j replay [OF assms] by (cases r) (simp_all add: renderPath_def Let_def)
  qed
qed

lemma Clean_nonempty: "Clean p \<noteq> []"
  unfolding Clean_render using renderPath_facts(1) [OF comps_ok] .

lemma rooted_Clean: "rooted (Clean p) = rooted p"
  unfolding Clean_render using renderPath_facts(2) [OF comps_ok] .

lemma comps_Clean:
  "foldl (cleanStep (rooted p)) [] (splitSlash (Clean p)) =
   foldl (cleanStep (rooted p)) [] (splitSlash p)"
  unfolding Clean_render using renderPath_facts(3) [OF comps_ok] .

lemma rooted_append: "p \<noteq> [] \<Longrightarrow> rooted (p @ q) = rooted p"
  by (cases p) (simp_all add: rooted_def)

lemma Clean_idem: "Clean (Clean p) = Clean p"
  by (simp add: Clean_def [of "Clean p"] rooted_Clean comps_Clean) (simp add: Clean_def)

lemma Clean_Clean_append:
  assumes "p \<noteq> []"
  shows "Clean (Clean p @ CHR ''/'' # q) = Clean (p @ CHR ''/'' # q)"
proof -
  have r1: "rooted (Clean p @ CHR ''/'' # q) = rooted p"
    using rooted_append [OF Clean_nonempty] rooted_Clean by simp
  have r2: "rooted (p @ CHR ''/'' # q) = rooted p"
    using rooted_append [OF assms] by simp
  show ?thesis
    by (simp add: Clean_def [of "Clean p @ CHR ''/'' # q"] Clean_def [of "p @ CHR ''/'' # q"]
          r1 r2 splitSlash_append comps_Clean)
qed

lemma joinSlash_nonempty: "e \<noteq> [] \<Longrightarrow> joinSlash (e # es) \<noteq> []"
  by (cases es) simp_all

lemma Join_flatten: "Join (Join xs # ys) = Join (xs @ ys)"
proof (induction xs)
  case Nil
  then show ?case by (simp add: Join.simps)
next
  case (Cons e es)
  show ?case
  proof (cases "e = []")
    case True
    then show ?thesis using Cons by (simp add: Join.simps)
  next
    case False
    let ?P = "joinSlash (e # es)"
    have P: "?P \<noteq> []" using False by (rule joinSlash_nonempty)
    show ?thesis
    proof (cases ys)
      case Nil
      then show ?thesis using False Clean_nonempty [of ?P] by (simp add: Clean_idem Join.simps)
    next
      case (Cons y ys')
      have "joinSlash ((e # es) @ ys) = ?P @ CHR ''/'' # joinSlash ys"
        using Cons by (intro joinSlash_append) simp_all
      moreover have "joinSlash (Clean ?P # ys) = Clean ?P @ CHR ''/'' # joinSlash ys"
        using Cons by simp
      ultimately show ?thesis
        using False Clean_nonempty [of ?P] Clean_Clean_append [OF P] by (simp add: Join.simps)
    qed
  qed
qed


subsection \<open>The packaging loop\<close>

lemma eligible_eq:
  "eligible arts = filter (\<lambda>a. Goos a = ''linux'' \<and> Goarm a = [] \<and> Type a = Binary) arts"
  unfolding eligible_def List_def Filter_def
  by (rule filter_cong) (simp_all add: And_def ByGoos_def ByGoarm_def ByType_def)

lemma eligible_append_packages:
  assumes "list_all (\<lambda>a. Type a = APK \<or> Type a = APKIndex) na"
  shows "eligible (arts @ na) = eligible arts"
proof -
  have "filter (\<lambda>a. Goos a = ''linux'' \<and> Goarm a = [] \<and> Type a = Binary) na = []"
    using assms by (induction na) auto
  then show ?thesis by (simp add: eligible_eq)
qed

lemma grows_eligible:
  assumes "grows Q T w w'" and "\<And>a. Q a \<Longrightarrow> Type a = APK \<or> Type a = APKIndex"
  shows "eligible (Artifacts w') = eligible (Artifacts w)"
proof -
  from growsD [OF assms(1)] obtain na nt where
    a: "Artifacts w' = Artifacts w @ na" "list_all Q na" by blast
  have "list_all (\<lambda>a. Type a = APK \<or> Type a = APKIndex) na"
    using a(2) assms(2) by (simp add: list_all_iff)
  then show ?thesis using a(1) eligible_append_packages by simp
qed

lemma grows_ignoring_attempt:
  assumes "ignoring (attempt os c) w = (r, w')" and "\<And>rep. T (c, rep)"
  shows "grows Q T w w'"
proof (rule grows_ignoring [OF assms(1)])
  fix r1 w1
  assume "attempt os c w = (r1, w1)"
  then show "grows Q T w w1" using assms(2) by (rule grows_attempt)
qed

lemma packageBinary_grows:
  assumes run: "packageBinary os ctx alp pwd localPath localPathAbs repoPath pubKeyName bin w
                  = (r, w')"
    and bin: "bin \<in> set E"
    and lp: "localPath = Join [Dist (Config ctx), ''alpine-'' @ AlpineName alp]"
    and rp: "repoPath = Join [Root alp, Branch alp, Repository alp]"
  shows "grows (packagedFrom ctx alp bin) (opensOnly E) w w'"
proof -
  have rd: "Join [repoPath, alpineArch (Goarch bin)] =
            Join [Root alp, Branch alp, Repository alp, alpineArch (Goarch bin)]"
    unfolding rp by (simp only: Join_flatten append.simps)
  have pd: "Join [Join [localPath, abuildOutputDir, alpineArch (Goarch bin)], n] =
            Join [Dist (Config ctx), ''alpine-'' @ AlpineName alp, ''dist'',
                  alpineArch (Goarch bin), n]" for n
    unfolding lp abuildOutputDir_def by (simp only: Join_flatten append.simps)
  have "True \<and> grows (packagedFrom ctx alp bin) (opensOnly E) w w'"
  proof (rule seq_grows [where I = "\<lambda>_. True", OF _ TrueI run [unfolded packageBinary_def Let_def]])
    fix f v q v'
    assume f: "f \<in> set
      [attempt os (Mkdir (Join [localPath, alpineArch (Goarch bin)])),
       attempt os (Open (Path bin)),
       attempt os (Create (Join [Join [localPath, alpineArch (Goarch bin)], Base (Path bin)])),
       ignoring (attempt os (Chmod (Join [Join [localPath, alpineArch (Goarch bin)], Base (Path bin)]))),
       attempt os (Copy (Join [Join [localPath, alpineArch (Goarch bin)], Base (Path bin)]) (Path bin)),
       runCmd os (CombinedOutput [''abuild'', ''-P'', localPathAbs, ''-r''] [''CBUILD='' @ alpineArch (Goarch bin)] localPath),
       Add \<lparr>Type = APK, Name = AlpineName alp @ ''-'' @ Version ctx @ ''-r'' @ Itoa (Rel alp) @ ''.apk'',
            Path = Join [Join [localPath, abuildOutputDir, alpineArch (Goarch bin)],
                         AlpineName alp @ ''-'' @ Version ctx @ ''-r'' @ Itoa (Rel alp) @ ''.apk''],
            Goos = ''linux'', Goarch = Goarch bin, Goarm = [],
            RepoDir = Join [repoPath, alpineArch (Goarch bin)],
            Extra = [(''AlpineArch'', alpineArch (Goarch bin))]\<rparr>,
       runCmd os (CombinedOutput [''abuild-sign'', Join [pwd, Join [Join [localPath, abuildOutputDir, alpineArch (Goarch bin)], apkIndexFileName]], ''-p'', pubKeyName] [] localPath),
       Add \<lparr>Type = APKIndex, Name = apkIndexFileName,
            Path = Join [Join [localPath, abuildOutputDir, alpineArch (Goarch bin)], apkIndexFileName],
            Goos = ''linux'', Goarch = Goarch bin, Goarm = [],
            RepoDir = Join [repoPath, alpineArch (Goarch bin)],
            Extra = [(''AlpineArch'', alpineArch (Goarch bin))]\<rparr>]"
      and fv: "f v = (q, v')"
    from f have "grows (packagedFrom ctx alp bin) (opensOnly E) v v'"
      apply (simp only: set_simps insert_iff empty_iff)
      apply (elim disjE)
      subgoal using fv by (auto intro: grows_attempt)
      subgoal using fv bin by (auto intro: grows_attempt)
      subgoal using fv by (auto intro: grows_attempt)
      subgoal using fv by (auto intro: grows_ignoring_attempt)
      subgoal using fv bin by (auto intro: grows_attempt)
      subgoal using fv by (auto intro: grows_runCmd)
      subgoal using fv by (auto intro!: grows_Add simp: packagedFrom_def rd pd)
      subgoal using fv by (auto intro: grows_runCmd)
      subgoal using fv by (auto intro!: grows_Add simp: packagedFrom_def rd pd)
      subgoal by simp
      done
    then show "True \<and> grows (packagedFrom ctx alp bin) (opensOnly E) v v'" by simp
  qed
  then show ?thesis by simp
qed

lemma packagedFrom_kind: "packagedFrom ctx alp bin a \<Longrightarrow> Type a = APK \<or> Type a = APKIndex"
  by (simp add: packagedFrom_def)

lemma sys_grows:
  assumes "sys os c w = (rep, w')" and "\<And>rep. T (c, rep)"
  shows "grows Q T w w'"
  using assms(1)
  by (intro growsI [of _ _ "[]" "[(c, os (trace w) c)]"]) (auto simp: sys_eq assms(2))

lemma runAlpine_grows:
  assumes run: "runAlpine os e render ctx alp w = (r, w')"
    and alp: "alp \<in> set alps"
    and el: "eligible (Artifacts w) = E"
  shows "eligible (Artifacts w') = E \<and>
         grows (\<lambda>a. \<exists>alp\<in>set alps. \<exists>bin\<in>set E. packagedFrom ctx alp bin a) (opensOnly E) w w'"
    (is "_ \<and> grows ?Q ?T w w'")
proof -
  have g: "grows ?Q ?T w w'"
  proof -
    obtain pwd m w1 where s: "sys os Getwd w = ((pwd, m), w1)"
      by (metis surj_pair)
    have g1: "grows ?Q ?T w w1" using s by (rule sys_grows) simp
    show ?thesis
    proof (cases m)
      case (Some a)
      then show ?thesis using run s g1 by (simp add: runAlpine_def Let_def)
    next
      case None
      let ?lp = "Join [Dist (Config ctx), ''alpine-'' @ AlpineName alp]"
      obtain r2 w2 where a: "attempt os (MkdirAll ?lp) w1 = (r2, w2)"
        by (metis surj_pair)
      have g2: "grows ?Q ?T w1 w2" using a by (rule grows_attempt) simp
      show ?thesis
      proof (cases r2)
        case (Some err)
        then show ?thesis using run s None a grows_trans [OF g1 g2]
          by (simp add: runAlpine_def Let_def)
      next
        case n2: None
        obtain apkBuild ge where gen: "generateApkBuildFile render ctx alp = (apkBuild, ge)"
          by (metis surj_pair)
        show ?thesis
        proof (cases ge)
          case (Some err)
          then show ?thesis using run s None a n2 gen grows_trans [OF g1 g2]
            by (simp add: runAlpine_def Let_def)
        next
          case n3: None
          let ?rp = "Join [Root alp, Branch alp, Repository alp]"
          let ?steps = "ignoring (attempt os (WriteFile (Join [?lp, apkBuildFileName]) apkBuild))
                 # attempt os (LookPath ''abuild'')
                 # map (packageBinary os ctx alp pwd ?lp (Join [pwd, ?lp]) ?rp
                          (Dir (pubKeyPath e))) E"
          have sq: "seq ?steps w2 = (r, w')"
            using run s None a n2 gen n3 el by (simp add: runAlpine_def Let_def)
          have "True \<and> grows ?Q ?T w2 w'"
          proof (rule seq_grows [where I = "\<lambda>_. True", OF _ TrueI sq])
            fix f v q v'
            assume f: "f \<in> set ?steps" and fv: "f v = (q, v')"
            from f consider
                "f = ignoring (attempt os (WriteFile (Join [?lp, apkBuildFileName]) apkBuild))"
              | "f = attempt os (LookPath ''abuild'')"
              | bin where "bin \<in> set E"
                  "f = packageBinary os ctx alp pwd ?lp (Join [pwd, ?lp]) ?rp
                         (Dir (pubKeyPath e)) bin"
              by auto
            then have "grows ?Q ?T v v'"
            proof cases
              case 1
              then show ?thesis using fv by (auto intro: grows_ignoring_attempt)
            next
              case 2
              then show ?thesis using fv by (auto intro: grows_attempt)
            next
              case 3
              have "grows (packagedFrom ctx alp bin) ?T v v'"
                using fv 3 by (intro packageBinary_grows [where E = E]) simp_all
              then show ?thesis
                by (rule grows_mono) (use alp 3(1) in auto)
            qed
            then show "True \<and> grows ?Q ?T v v'" by simp
          qed
          then show ?thesis using grows_trans [OF grows_trans [OF g1 g2]] by simp
        qed
      qed
    qed
  qed
  have "eligible (Artifacts w') = eligible (Artifacts w)"
    using g by (rule grows_eligible) (auto dest: packagedFrom_kind)
  then show ?thesis using g el by simp
qed

lemma Run_grows:
  assumes run: "Run os e render ctx w = (r, w')"
  shows "grows (\<lambda>a. \<exists>alp\<in>set (Alpine (Config ctx)). \<exists>bin\<in>set (eligible (Artifacts w)).
                  packagedFrom ctx alp bin a)
           (opensOnly (eligible (Artifacts w))) w w'"
    (is "grows ?Q ?T w w'")
proof (cases "Alpine (Config ctx) = []")
  case True
  then show ?thesis using run by (simp add: Run_def grows_refl)
next
  case False
  then have sq: "seq (map (runAlpine os e render ctx) (Alpine (Config ctx))) w = (r, w')"
    using run by (simp add: Run_def)
  have "eligible (Artifacts w') = eligible (Artifacts w) \<and> grows ?Q ?T w w'"
  proof (rule seq_grows [where I = "\<lambda>v. eligible (Artifacts v) = eligible (Artifacts w)",
        OF _ _ sq])
    show "eligible (Artifacts w) = eligible (Artifacts w)" by simp
  next
    fix f v q v'
    assume f: "f \<in> set (map (runAlpine os e render ctx) (Alpine (Config ctx)))"
      and iv: "eligible (Artifacts v) = eligible (Artifacts w)" and fv: "f v = (q, v')"
    from f obtain alp where alp: "alp \<in> set (Alpine (Config ctx))"
      "f = runAlpine os e render ctx alp" by auto
    show "eligible (Artifacts v') = eligible (Artifacts w) \<and> grows ?Q ?T v v'"
      using runAlpine_grows [OF fv [unfolded alp(2)] alp(1) iv] .
  qed
  then show ?thesis by simp
qed

lemma toolSucceeded_append:
  "toolSucceeded t (xs @ ys) = (toolSucceeded t xs \<or> toolSucceeded t ys)"
  by (induction t xs rule: toolSucceeded.induct) auto

lemma toolFailed_append:
  "toolFailed t (xs @ ys) = (toolFailed t xs \<or> toolFailed t ys)"
  by (induction t xs rule: toolFailed.induct) auto

lemma notCommand_quiet:
  "list_all notCommand nt \<Longrightarrow> \<not> toolSucceeded t nt \<and> \<not> toolFailed t nt"
proof (induction nt)
  case Nil
  then show ?case by simp
next
  case (Cons x nt)
  obtain c v m where x: "x = (c, v, m)" by (metis surj_pair)
  show ?case using Cons unfolding x by (cases c) simp_all
qed

lemma seq_append:
  "seq (fs @ gs) w =
     (case seq fs w of (Some err, w') \<Rightarrow> (Some err, w') | (None, w') \<Rightarrow> seq gs w')"
  by (induction fs arbitrary: w) (auto split: prod.splits option.splits)

lemma registered_append: "Artifacts w' = Artifacts w @ na \<Longrightarrow> registered w w' = na"
  by (simp add: registered_def)

lemma since_append: "trace w' = trace w @ nt \<Longrightarrow> since w w' = nt"
  by (simp add: since_def)

lemma staging_quiet:
  assumes "seq [attempt os (Mkdir d), attempt os (Open p), attempt os (Create q),
                ignoring (attempt os (Chmod q)), attempt os (Copy q p)] w = (r, w')"
  shows "Artifacts w' = Artifacts w \<and>
         (\<exists>nt. trace w' = trace w @ nt \<and> \<not> toolSucceeded t nt \<and> \<not> toolFailed t nt)"
proof -
  have "True \<and> grows (\<lambda>_. False) notCommand w w'"
  proof (rule seq_grows [where I = "\<lambda>_. True", OF _ TrueI assms])
    fix f v x v'
    assume f: "f \<in> set [attempt os (Mkdir d), attempt os (Open p), attempt os (Create q),
                ignoring (attempt os (Chmod q)), attempt os (Copy q p)]"
      and fv: "f v = (x, v')"
    from f have "grows (\<lambda>_. False) notCommand v v'"
      apply (simp only: set_simps insert_iff empty_iff)
      apply (elim disjE)
      subgoal using fv by (auto intro: grows_attempt)
      subgoal using fv by (auto intro: grows_attempt)
      subgoal using fv by (auto intro: grows_attempt)
      subgoal using fv by (auto intro: grows_ignoring_attempt)
      subgoal using fv by (auto intro: grows_attempt)
      subgoal by simp
      done
    then show "True \<and> grows (\<lambda>_. False) notCommand v v'" by simp
  qed
  then obtain na nt where
    a: "Artifacts w' = Artifacts w @ na" "trace w' = trace w @ nt" "list_all (\<lambda>_. False) na"
      "list_all notCommand nt"
    using growsD by blast
  have "na = []" using a(3) by (cases na) simp_all
  then show ?thesis using a notCommand_quiet [OF a(4)] by auto
qed

lemma build_sign_register:
  assumes "seq [runCmd os (CombinedOutput (''abuild'' # args) ev dir), Add apk,
                runCmd os (CombinedOutput (''abuild-sign'' # args') ev' dir'), Add idx] w
             = (r, w')"
    and "Type apk = APK" and "Type idx = APKIndex"
  shows "\<exists>na nt. Artifacts w' = Artifacts w @ na \<and> trace w' = trace w @ nt \<and>
           (map Type na = [] \<or> map Type na = [APK] \<or> map Type na = [APK, APKIndex]) \<and>
           (APKIndex \<in> set (map Type na) \<longleftrightarrow> toolSucceeded ''abuild-sign'' nt) \<and>
           (r = None \<longleftrightarrow> toolSucceeded ''abuild-sign'' nt) \<and>
           (APK \<in> set (map Type na) \<longleftrightarrow> toolSucceeded ''abuild'' nt) \<and>
           (toolFailed ''abuild-sign'' nt \<longrightarrow> map Type na = [APK] \<and> r \<noteq> None)"
  using assms
  by (auto simp: runCmd_def sys_eq Add_def split: prod.splits option.splits)

lemma body_cases:
  assumes run: "seq [attempt os (Mkdir d), attempt os (Open p), attempt os (Create q),
                ignoring (attempt os (Chmod q)), attempt os (Copy q p),
                runCmd os (CombinedOutput (''abuild'' # args) ev dir), Add apk,
                runCmd os (CombinedOutput (''abuild-sign'' # args') ev' dir'), Add idx] w
             = (r, w')"
    and apk: "Type apk = APK" and idx: "Type idx = APKIndex"
  shows "Artifacts w' = Artifacts w @ registered w w' \<and>
         trace w' = trace w @ since w w' \<and>
         (map Type (registered w w') = [] \<or> map Type (registered w w') = [APK] \<or>
          map Type (registered w w') = [APK, APKIndex]) \<and>
         (APKIndex \<in> set (map Type (registered w w')) \<longleftrightarrow>
            toolSucceeded ''abuild-sign'' (since w w')) \<and>
         (r = None \<longleftrightarrow> toolSucceeded ''abuild-sign'' (since w w')) \<and>
         (APK \<in> set (map Type (registered w w')) \<longleftrightarrow> toolSucceeded ''abuild'' (since w w')) \<and>
         (toolFailed ''abuild-sign'' (since w w') \<longrightarrow>
            map Type (registered w w') = [APK] \<and> r \<noteq> None)"
proof -
  let ?pre = "[attempt os (Mkdir d), attempt os (Open p), attempt os (Create q),
               ignoring (attempt os (Chmod q)), attempt os (Copy q p)]"
  let ?post = "[runCmd os (CombinedOutput (''abuild'' # args) ev dir), Add apk,
                runCmd os (CombinedOutput (''abuild-sign'' # args') ev' dir'), Add idx]"
  have run': "seq (?pre @ ?post) w = (r, w')" using run by simp
  obtain r1 w1 where p: "seq ?pre w = (r1, w1)" by (metis surj_pair)
  from staging_quiet [OF p, of "''abuild''"] staging_quiet [OF p, of "''abuild-sign''"]
  obtain nt1 where
    q1: "Artifacts w1 = Artifacts w" "trace w1 = trace w @ nt1"
      "\<not> toolSucceeded ''abuild'' nt1" "\<not> toolSucceeded ''abuild-sign'' nt1"
      "\<not> toolFailed ''abuild-sign'' nt1"
    by auto
  show ?thesis
  proof (cases r1)
    case (Some err)
    then have "r = Some err" "w' = w1"
      using run' p by (simp_all only: seq_append prod.case option.case prod.inject)
    then show ?thesis
      using q1 by (simp add: registered_def since_def)
  next
    case None
    then have "seq ?post w1 = (r, w')"
      using run' p by (simp only: seq_append prod.case option.case)
    from build_sign_register [OF this apk idx] obtain na nt2 where
      q2: "Artifacts w' = Artifacts w1 @ na" "trace w' = trace w1 @ nt2"
        "map Type na = [] \<or> map Type na = [APK] \<or> map Type na = [APK, APKIndex]"
        "APKIndex \<in> set (map Type na) \<longleftrightarrow> toolSucceeded ''abuild-sign'' nt2"
        "r = None \<longleftrightarrow> toolSucceeded ''abuild-sign'' nt2"
        "APK \<in> set (map Type na) \<longleftrightarrow> toolSucceeded ''abuild'' nt2"
        "toolFailed ''abuild-sign'' nt2 \<longrightarrow> map Type na = [APK] \<and> r \<noteq> None"
      by (elim exE conjE) (rule that)
    have reg: "registered w w' = na"
      using q1(1) q2(1) by (simp add: registered_append)
    have sin: "since w w' = nt1 @ nt2"
      using q1(2) q2(2) by (simp add: since_append)
    have a: "Artifacts w' = Artifacts w @ registered w w'"
      unfolding reg using q1(1) q2(1) by simp
    have b: "trace w' = trace w @ since w w'"
      unfolding sin using q1(2) q2(2) by simp
    show ?thesis
      unfolding reg sin toolSucceeded_append toolFailed_append
      using a [unfolded reg] b [unfolded sin] q1(3,4,5) q2(3,4,5,6,7) by simp
  qed
qed

lemma joinSlash_snoc_nonempty: "a \<noteq> [] \<Longrightarrow> joinSlash (xs @ [a]) \<noteq> []"
proof (cases "xs = []")
  case True
  assume "a \<noteq> []"
  then show ?thesis using True by simp
next
  case False
  then show ?thesis using joinSlash_append [of xs "[a]"] by simp
qed

lemma renderPath_last:
  assumes "a \<noteq> []" and "list_all (\<lambda>x. CHR ''/'' \<notin> set x) (a # S)"
  shows "last (splitSlash (renderPath r (a # S))) = a"
proof -
  have ns: "list_all (\<lambda>x. CHR ''/'' \<notin> set x) (rev S @ [a])"
    using assms(2) by (simp add: list_all_iff)
  have sp: "splitSlash (joinSlash (rev S @ [a])) = rev S @ [a]"
    using splitSlash_joinSlash [OF _ ns] by simp
  have ne: "joinSlash (rev S @ [a]) \<noteq> []"
    using assms(1) by (rule joinSlash_snoc_nonempty)
  show ?thesis
    using sp ne by (cases r) (simp_all add: renderPath_def Let_def)
qed

lemma Join_last_segment:
  assumes "plain a"
  shows "last (splitSlash (Join (xs @ [a]))) = a"
proof (induction xs)
  case Nil
  have "CHR ''/'' \<notin> set a" "a \<noteq> []" using assms by (simp_all add: plain_def)
  then have s: "splitSlash a = [a]" "\<not> rooted a"
    by (simp_all add: splitSlash_noslash rooted_def split: list.splits) auto
  have "cleanStep False [] a = [a]" using assms by (simp add: cleanStep_def plain_def)
  then have "Clean a = a" using s \<open>a \<noteq> []\<close> by (simp add: Clean_def)
  then show ?case using s \<open>a \<noteq> []\<close> by (simp add: Join.simps)
next
  case (Cons e es)
  show ?case
  proof (cases "e = []")
    case True
    then show ?thesis using Cons by (simp add: Join.simps)
  next
    case False
    let ?P = "joinSlash (e # es)"
    let ?r = "rooted ?P"
    let ?S = "foldl (cleanStep ?r) [] (splitSlash ?P)"
    have na: "CHR ''/'' \<notin> set a" "a \<noteq> []" using assms by (simp_all add: plain_def)
    have P: "?P \<noteq> []" using False by (rule joinSlash_nonempty)
    have j: "joinSlash ((e # es) @ [a]) = ?P @ CHR ''/'' # a"
      using joinSlash_append [of "e # es" "[a]"] by simp
    have r: "rooted (?P @ CHR ''/'' # a) = ?r" using rooted_append [OF P] by simp
    have ok: "stackOK ?r ?S" by (rule comps_ok)
    have push: "cleanStep ?r ?S a = a # ?S" using assms by (simp add: cleanStep_def plain_def)
    have ok': "stackOK ?r (a # ?S)" using ok assms by (simp add: plain_def)
    have c: "Clean (?P @ CHR ''/'' # a) = renderPath ?r (a # ?S)"
      by (simp add: Clean_render r splitSlash_append splitSlash_noslash na push)
    have "last (splitSlash (renderPath ?r (a # ?S))) = a"
      using na(2) stackOK_noslash [OF ok'] by (rule renderPath_last)
    then show ?thesis using False j c by (simp add: Join.simps)
  qed
qed

lemma packagedFrom_last_segment:
  assumes "packagedFrom ctx alp bin a" and "plain (alpineArch (Goarch bin))"
  shows "last (splitSlash (RepoDir a)) = alpineArch (Goarch bin)"
  using assms(1) Join_last_segment [OF assms(2), of "[Root alp, Branch alp, Repository alp]"]
  by (simp add: packagedFrom_def)

subsection \<open>The upload fan-out\<close>

lemma uploadUnit_cases:
  assumes "uploadUnit os b f conf a w = (r, w')"
  shows "Artifacts w' = Artifacts w \<and>
         (\<exists>nt. trace w' = trace w @ nt \<and>
            ((\<exists>v m. nt = [(Open (Path a), v, Some m)] \<and> r = Some (External m)) \<or>
             (\<exists>v v2 e2. nt = [(Open (Path a), v, None),
                               (PutObject b (Join [f, RepoDir a, Name a]) (Path a) (ACL conf), v2, e2)] \<and>
                r = map_option External e2)))"
  using assms
  by (auto simp: uploadUnit_def attempt_def sys_eq split: prod.splits option.splits)

lemma failures_append: "failures (xs @ ys) = failures xs @ failures ys"
  by (induction xs rule: failures.induct) simp_all

text \<open>What one unit appends, in the terms of the observations.\<close>

lemma uploadUnit_obs:
  assumes "uploadUnit os b f conf a w = (r, w')"
  shows "Artifacts w' = Artifacts w \<and>
         (\<exists>nt e. trace w' = trace w @ nt \<and>
            filter (isOpen \<circ> fst) nt = [e] \<and> fst e = Open (Path a) \<and>
            map fst (filter (isPut \<circ> fst) nt) =
              (if snd (snd e) = None
               then [PutObject b (Join [f, RepoDir a, Name a]) (Path a) (ACL conf)] else []) \<and>
            failures nt = (case r of None \<Rightarrow> [] | Some err \<Rightarrow> [err]) \<and>
            length (failures nt) + length (filter putOK nt) = 1)"
proof -
  from uploadUnit_cases [OF assms] obtain nt where
    a: "Artifacts w' = Artifacts w" "trace w' = trace w @ nt" and
    c: "(\<exists>v m. nt = [(Open (Path a), v, Some m)] \<and> r = Some (External m)) \<or>
        (\<exists>v v2 e2. nt = [(Open (Path a), v, None),
                          (PutObject b (Join [f, RepoDir a, Name a]) (Path a) (ACL conf), v2, e2)] \<and>
           r = map_option External e2)"
    by blast
  from c show ?thesis
  proof
    assume "\<exists>v m. nt = [(Open (Path a), v, Some m)] \<and> r = Some (External m)"
    then obtain v m where "nt = [(Open (Path a), v, Some m)]" "r = Some (External m)" by blast
    then show ?thesis using a
      by (intro conjI exI [of _ nt] exI [of _ "(Open (Path a), v, Some m)"])
         (simp_all add: putOK_def)
  next
    assume "\<exists>v v2 e2. nt = [(Open (Path a), v, None),
                          (PutObject b (Join [f, RepoDir a, Name a]) (Path a) (ACL conf), v2, e2)] \<and>
           r = map_option External e2"
    then obtain v v2 e2 where
      "nt = [(Open (Path a), v, None),
             (PutObject b (Join [f, RepoDir a, Name a]) (Path a) (ACL conf), v2, e2)]"
      "r = map_option External e2" by blast
    then show ?thesis using a
      by (intro conjI exI [of _ nt] exI [of _ "(Open (Path a), v, None)"])
         (cases e2; simp add: putOK_def)+
  qed
qed

lemma GoAll_upload:
  assumes "GoAll g (map (uploadUnit os b f conf) arts) w = (g', w')"
  shows "Artifacts w' = Artifacts w \<and>
         (\<exists>nt. trace w' = trace w @ nt \<and>
            map fst (filter (isOpen \<circ> fst) nt) = map (\<lambda>a. Open (Path a)) arts \<and>
            map fst (filter (isPut \<circ> fst) nt) =
              map (\<lambda>(a, e). PutObject b (Join [f, RepoDir a, Name a]) (Path a) (ACL conf))
                (filter (\<lambda>(a, e). snd (snd e) = None) (zip arts (filter (isOpen \<circ> fst) nt))) \<and>
            errs g' = errs g @ failures nt \<and>
            length (failures nt) + length (filter putOK nt) = length arts)"
  using assms
proof (induction arts arbitrary: g w)
  case Nil
  then show ?case by simp
next
  case (Cons a arts)
  obtain r w1 where u: "uploadUnit os b f conf a w = (r, w1)" by (metis surj_pair)
  from uploadUnit_obs [OF u] obtain nu e where
    n: "Artifacts w1 = Artifacts w" "trace w1 = trace w @ nu"
      "filter (isOpen \<circ> fst) nu = [e]" "fst e = Open (Path a)"
      "map fst (filter (isPut \<circ> fst) nu) =
         (if snd (snd e) = None
          then [PutObject b (Join [f, RepoDir a, Name a]) (Path a) (ACL conf)] else [])"
      "failures nu = (case r of None \<Rightarrow> [] | Some err \<Rightarrow> [err])"
      "length (failures nu) + length (filter putOK nu) = 1"
    by blast
  define g1 where "g1 = (case r of None \<Rightarrow> g | Some err \<Rightarrow> g\<lparr>errs := errs g @ [err]\<rparr>)"
  have go: "Go g (uploadUnit os b f conf a) w = (g1, w1)"
    using u by (simp add: Go_def g1_def split: option.splits)
  have e1: "errs g1 = errs g @ failures nu"
    using n(6) by (simp add: g1_def split: option.splits)
  have rest: "GoAll g1 (map (uploadUnit os b f conf) arts) w1 = (g', w')"
    using Cons.prems go by simp
  from Cons.IH [OF rest] obtain nt where
    t: "Artifacts w' = Artifacts w1" "trace w' = trace w1 @ nt"
      "map fst (filter (isOpen \<circ> fst) nt) = map (\<lambda>a. Open (Path a)) arts"
      "map fst (filter (isPut \<circ> fst) nt) =
         map (\<lambda>(a, e). PutObject b (Join [f, RepoDir a, Name a]) (Path a) (ACL conf))
           (filter (\<lambda>(a, e). snd (snd e) = None) (zip arts (filter (isOpen \<circ> fst) nt)))"
      "errs g' = errs g1 @ failures nt"
      "length (failures nt) + length (filter putOK nt) = length arts"
    by blast
  show ?case
  proof (intro conjI exI [of _ "nu @ nt"])
    show "Artifacts w' = Artifacts w" using n(1) t(1) by simp
    show "trace w' = trace w @ nu @ nt" using n(2) t(2) by simp
    show "map fst (filter (isOpen \<circ> fst) (nu @ nt)) = map (\<lambda>a. Open (Path a)) (a # arts)"
      using n(3,4) t(3) by simp
    show "map fst (filter (isPut \<circ> fst) (nu @ nt)) =
            map (\<lambda>(a, e). PutObject b (Join [f, RepoDir a, Name a]) (Path a) (ACL conf))
              (filter (\<lambda>(a, e). snd (snd e) = None)
                 (zip (a # arts) (filter (isOpen \<circ> fst) (nu @ nt))))"
      using n(3,5) t(4) by simp
    show "errs g' = errs g @ failures (nu @ nt)"
      using e1 t(5) by (simp add: failures_append)
    show "length (failures (nu @ nt)) + length (filter putOK (nu @ nt)) = length (a # arts)"
      using n(7) t(6) by (simp add: failures_append)
  qed
qed

lemma GoAll_outcomes:
  "GoAll g fns w = (g', w') \<Longrightarrow> errs g' = errs g @ errorsOf (outcomes fns w)"
proof (induction fns arbitrary: g w)
  case Nil
  then show ?case by simp
next
  case (Cons fn fns)
  obtain r w1 where f: "fn w = (r, w1)" by (metis surj_pair)
  show ?case
  proof (cases r)
    case None
    then have "GoAll g fns w1 = (g', w')" using Cons.prems f by (simp add: Go_def)
    from Cons.IH [OF this] show ?thesis using f None by simp
  next
    case (Some err)
    then have "GoAll (g\<lparr>errs := errs g @ [err]\<rparr>) fns w1 = (g', w')"
      using Cons.prems f by (simp add: Go_def)
    from Cons.IH [OF this] show ?thesis using f Some by simp
  qed
qed

lemma length_outcomes: "length (outcomes fns w) = length fns"
  by (induction fns arbitrary: w) simp_all

lemma upload_resolved:
  assumes "apply (Bucket conf) = Inr bucket" and "apply (Folder conf) = Inr folder"
    and "filtersOf (S3Artifacts conf) [] = Inr filters"
    and "upload os apply ctx conf w = (r, w')"
  shows "\<exists>g. GoAll (New (Parallelism ctx))
                (map (uploadUnit os bucket folder conf)
                   (List (Filter (Or filters) (Artifacts w)))) w = (g, w') \<and> r = Wait g"
  using assms by (auto simp: upload_def split: prod.splits)

lemma filtersOf_unknown:
  "\<exists>s \<in> set ks. artifactTypes s = None \<Longrightarrow>
   \<exists>s \<in> set ks. artifactTypes s = None \<and>
     filtersOf ks fs = Inl (Errorf (''unknown artifact type: '' @ s))"
proof (induction ks arbitrary: fs)
  case Nil
  then show ?case by simp
next
  case (Cons k ks)
  show ?case
  proof (cases "artifactTypes k")
    case None
    then show ?thesis by simp
  next
    case (Some t)
    then have "\<exists>s \<in> set ks. artifactTypes s = None" using Cons.prems by auto
    from Cons.IH [OF this, of "fs @ [ByType t]"] show ?thesis using Some by auto
  qed
qed

lemma dom_artifactTypes:
  "dom artifactTypes =
     {''apkindex'', ''apk'', ''signature'', ''checksum'', ''nfpm'', ''binary'', ''archive''}"
  unfolding artifactTypes_def
  by (simp only: dom_fun_upd dom_empty option.simps if_False)

lemma noSkip_External: "noSkip (map_option External x)"
  by (cases x) simp_all

lemma attempt_noSkip: "noSkip (fst (attempt os c w))"
  by (simp add: attempt_def sys_eq noSkip_External split: prod.splits)

lemma seq_noSkip_all:
  "list_all (\<lambda>f. \<forall>w. noSkip (fst (f w))) fs \<Longrightarrow> noSkip (fst (seq fs w))"
  by (rule seq_noSkip) (simp add: list_all_iff)

lemma runCmd_noSkip: "noSkip (fst (runCmd os c w))"
  by (auto simp: runCmd_def sys_eq split: prod.splits option.splits)

lemma ignoring_noSkip: "noSkip (fst (ignoring f w))"
  by (simp add: ignoring_def)

lemma Add_noSkip: "noSkip (fst (Add a w))"
  by (simp add: Add_def)

lemma packageBinary_noSkip:
  "noSkip (fst (packageBinary os ctx alp pwd localPath localPathAbs repoPath pubKeyName bin w))"
  unfolding packageBinary_def Let_def
  by (rule seq_noSkip_all)
     (simp add: attempt_noSkip runCmd_noSkip ignoring_noSkip Add_noSkip)

lemma generate_noSkip: "noSkip (snd (generateApkBuildFile render ctx alp))"
  by (simp add: generateApkBuildFile_def buildApkBuildFile_def noSkip_External
        split: prod.splits)

lemma runAlpine_noSkip: "noSkip (fst (runAlpine os e render ctx alp w))"
proof -
  obtain pwd m w1 where s: "sys os Getwd w = ((pwd, m), w1)" by (metis surj_pair)
  show ?thesis
  proof (cases m)
    case (Some a)
    then show ?thesis using s by (simp add: runAlpine_def Let_def)
  next
    case None
    let ?lp = "Join [Dist (Config ctx), ''alpine-'' @ AlpineName alp]"
    obtain r2 w2 where a: "attempt os (MkdirAll ?lp) w1 = (r2, w2)" by (metis surj_pair)
    have n2: "noSkip r2" using attempt_noSkip [of os "MkdirAll ?lp" w1] a by simp
    show ?thesis
    proof (cases r2)
      case (Some err)
      then show ?thesis using s None a n2 by (simp add: runAlpine_def Let_def)
    next
      case r2: None
      obtain out ge where gen: "generateApkBuildFile render ctx alp = (out, ge)"
        by (metis surj_pair)
      have n3: "noSkip ge" using generate_noSkip [of render ctx alp] gen by simp
      show ?thesis
      proof (cases ge)
        case (Some err)
        then show ?thesis using s None a r2 gen n3
          by (simp add: runAlpine_def Let_def)
      next
        case g: None
        have "noSkip (fst (seq
             (ignoring (attempt os (WriteFile (Join [?lp, apkBuildFileName]) out))
              # attempt os (LookPath ''abuild'')
              # map (packageBinary os ctx alp pwd ?lp (Join [pwd, ?lp])
                       (Join [Root alp, Branch alp, Repository alp]) (Dir (pubKeyPath e)))
                  (eligible (Artifacts w))) w2))"
          by (rule seq_noSkip_all)
             (simp add: attempt_noSkip ignoring_noSkip packageBinary_noSkip list_all_iff)
        then show ?thesis using s None a r2 gen g
          by (simp add: runAlpine_def Let_def)
      qed
    qed
  qed
qed

lemma Run_noSkip: "Alpine (Config ctx) \<noteq> [] \<Longrightarrow> noSkip (fst (Run os e render ctx w))"
  unfolding Run_def
  by (simp, rule seq_noSkip_all) (simp add: runAlpine_noSkip list_all_iff)

lemma upload_nothing:
  assumes "nothingToUpload apply w conf"
  shows "upload os apply ctx conf w = (None, w)"
  using assms
  by (auto simp: nothingToUpload_def upload_def Wait_def New_def split: sum.splits)

lemma GoAll_nothing:
  assumes "list_all (nothingToUpload apply w) confs"
  shows "GoAll g (map (upload os apply ctx) confs) w = (g, w)"
  using assms
  by (induction confs) (simp_all add: Go_def upload_nothing)

lemma GoAll_afterAll: "GoAll g fns w = (g', w') \<Longrightarrow> w' = afterAll fns w"
proof (induction fns arbitrary: g w)
  case Nil
  then show ?case by simp
next
  case (Cons fn fns)
  obtain r w1 where f: "fn w = (r, w1)" by (metis surj_pair)
  obtain g1 where g1: "Go g fn w = (g1, w1)"
    using f by (cases r) (simp_all add: Go_def)
  then have "GoAll g1 fns w1 = (g', w')" using Cons.prems by simp
  from Cons.IH [OF this] show ?case using f by simp
qed

subsection \<open>The claims\<close>

text \<open>
  C1: a fan-out leaves the state in which every one of its units has run to its end, each
  from the state its predecessor left, whether or not a predecessor failed; \<open>Wait\<close>
  returns nil when no unit failed and otherwise one error that holds the error of every
  failed unit, in order. In the upload fan-out of one destination this means: the files
  of all matching artifacts are opened, in registration order, each unit either fails
  once or completes its upload, and the error returned holds every error replied. The
  fan-out of \<open>Publish\<close> over the destinations returns the combined results of all its
  units and the state after all of them.
\<close>

theorem C1_wait_combines_every_failure:
  "(apply (Bucket conf) = Inr bucket \<and> apply (Folder conf) = Inr folder \<and>
    filtersOf (S3Artifacts conf) [] = Inr filters \<and> upload os apply ctx conf w = (r, w') \<longrightarrow>
      trace w' = trace w @ since w w' \<and>
      map fst (filter (isOpen \<circ> fst) (since w w')) =
        map (\<lambda>a. Open (Path a)) (List (Filter (Or filters) (Artifacts w))) \<and>
      length (failures (since w w')) + length (filter putOK (since w w')) =
        length (List (Filter (Or filters) (Artifacts w))) \<and>
      r = (if failures (since w w') = [] then None
           else Some (Combined (failures (since w w')))) \<and>
      w' = afterAll (map (uploadUnit os bucket folder conf)
                       (List (Filter (Or filters) (Artifacts w)))) w) \<and>
   (S3 (Config ctx) \<noteq> [] \<and> CheckPipe ctx ''s3'' = None \<longrightarrow>
      length (outcomes (map (upload os apply ctx) (S3 (Config ctx))) w) =
        length (S3 (Config ctx)) \<and>
      fst (Publish os apply ctx w) =
        (if errorsOf (outcomes (map (upload os apply ctx) (S3 (Config ctx))) w) = [] then None
         else Some (Combined
                (errorsOf (outcomes (map (upload os apply ctx) (S3 (Config ctx))) w)))) \<and>
      snd (Publish os apply ctx w) =
        afterAll (map (upload os apply ctx) (S3 (Config ctx))) w) \<and>
   (GoAll (New n) fns w = (g, w'') \<longrightarrow>
      w'' = afterAll fns w \<and> length (outcomes fns w) = length fns \<and>
      Wait g = (if errorsOf (outcomes fns w) = [] then None
                else Some (Combined (errorsOf (outcomes fns w)))))"
proof (intro conjI impI)
  assume a: "apply (Bucket conf) = Inr bucket \<and> apply (Folder conf) = Inr folder \<and>
    filtersOf (S3Artifacts conf) [] = Inr filters \<and> upload os apply ctx conf w = (r, w')"
  then obtain g0 where
    g: "GoAll (New (Parallelism ctx))
          (map (uploadUnit os bucket folder conf) (List (Filter (Or filters) (Artifacts w)))) w
        = (g0, w')" "r = Wait g0"
    using upload_resolved by blast
  from GoAll_upload [OF g(1)] obtain nt where
    t: "trace w' = trace w @ nt"
      "map fst (filter (isOpen \<circ> fst) nt) =
         map (\<lambda>a. Open (Path a)) (List (Filter (Or filters) (Artifacts w)))"
      "errs g0 = errs (New (Parallelism ctx)) @ failures nt"
      "length (failures nt) + length (filter putOK nt) =
         length (List (Filter (Or filters) (Artifacts w)))"
    by blast
  have s: "since w w' = nt" using t(1) by (rule since_append)
  show "trace w' = trace w @ since w w'" using t(1) s by simp
  show "map fst (filter (isOpen \<circ> fst) (since w w')) =
        map (\<lambda>a. Open (Path a)) (List (Filter (Or filters) (Artifacts w)))"
    using t(2) s by simp
  show "length (failures (since w w')) + length (filter putOK (since w w')) =
        length (List (Filter (Or filters) (Artifacts w)))"
    using t(4) s by simp
  show "r = (if failures (since w w') = [] then None
           else Some (Combined (failures (since w w'))))"
    using g(2) t(3) s by (simp add: Wait_def New_def)
  show "w' = afterAll (map (uploadUnit os bucket folder conf)
                       (List (Filter (Or filters) (Artifacts w)))) w"
    using g(1) by (rule GoAll_afterAll)
next
  assume "S3 (Config ctx) \<noteq> [] \<and> CheckPipe ctx ''s3'' = None"
  show "length (outcomes (map (upload os apply ctx) (S3 (Config ctx))) w) =
        length (S3 (Config ctx))"
    by (simp add: length_outcomes)
next
  assume a: "S3 (Config ctx) \<noteq> [] \<and> CheckPipe ctx ''s3'' = None"
  obtain g0 w0 where
    g: "GoAll (New (Parallelism ctx)) (map (upload os apply ctx) (S3 (Config ctx))) w = (g0, w0)"
    by (metis surj_pair)
  have "errs g0 = errorsOf (outcomes (map (upload os apply ctx) (S3 (Config ctx))) w)"
    using GoAll_outcomes [OF g] by (simp add: New_def)
  then show "fst (Publish os apply ctx w) =
        (if errorsOf (outcomes (map (upload os apply ctx) (S3 (Config ctx))) w) = [] then None
         else Some (Combined
                (errorsOf (outcomes (map (upload os apply ctx) (S3 (Config ctx))) w))))"
    using a g by (simp add: Publish_def Wait_def)
next
  assume a: "S3 (Config ctx) \<noteq> [] \<and> CheckPipe ctx ''s3'' = None"
  obtain g0 w0 where
    g: "GoAll (New (Parallelism ctx)) (map (upload os apply ctx) (S3 (Config ctx))) w = (g0, w0)"
    by (metis surj_pair)
  have "w0 = afterAll (map (upload os apply ctx) (S3 (Config ctx))) w"
    using g by (rule GoAll_afterAll)
  then show "snd (Publish os apply ctx w) =
        afterAll (map (upload os apply ctx) (S3 (Config ctx))) w"
    using a g by (simp add: Publish_def)
next
  assume g: "GoAll (New n) fns w = (g, w'')"
  show "w'' = afterAll fns w" using g by (rule GoAll_afterAll)
  show "length (outcomes fns w) = length fns" by (rule length_outcomes)
  have "errs g = errorsOf (outcomes fns w)"
    using GoAll_outcomes [OF g] by (simp add: New_def)
  then show "Wait g = (if errorsOf (outcomes fns w) = [] then None
                else Some (Combined (errorsOf (outcomes fns w))))"
    by (simp add: Wait_def)
qed

theorem C1_wait_combines_every_failure_witness:
  "apply0 (Bucket conf0) = Inr ''bucket'' \<and> apply0 (Folder conf0) = Inr ''releases/1.2.3'' \<and>
   filtersOf (S3Artifacts conf0) [] = Inr [ByType UploadableArchive] \<and>
   S3 (Config ctx_s3) \<noteq> [] \<and> CheckPipe ctx_s3 ''s3'' = None \<and>
   fst (upload os_s3 apply0 ctx_s3 conf0 world5) =
     Some (Combined [External ''open dist/a2: no such file'',
                     External ''RequestError: send request failed'']) \<and>
   map fst (filter (isOpen \<circ> fst) (since world5 (snd (upload os_s3 apply0 ctx_s3 conf0 world5)))) =
     [Open ''dist/a1'', Open ''dist/a2'', Open ''dist/a3'', Open ''dist/a4'', Open ''dist/a5''] \<and>
   length (filter putOK (since world5 (snd (upload os_s3 apply0 ctx_s3 conf0 world5)))) = 3 \<and>
   fst (Publish os_s3 apply0 ctx_s3 world5) =
     Some (Combined [Combined [External ''open dist/a2: no such file'',
                               External ''RequestError: send request failed'']]) \<and>
   map fst (trace (snd (Publish os_s3 apply0 ctx_s3 world5))) =
     [Open ''dist/a1'',
      PutObject ''bucket'' ''releases/1.2.3/a1'' ''dist/a1'' ''private'',
      Open ''dist/a2'',
      Open ''dist/a3'',
      PutObject ''bucket'' ''releases/1.2.3/a3'' ''dist/a3'' ''private'',
      Open ''dist/a4'',
      PutObject ''bucket'' ''releases/1.2.3/a4'' ''dist/a4'' ''private'',
      Open ''dist/a5'',
      PutObject ''bucket'' ''releases/1.2.3/a5'' ''dist/a5'' ''private''] \<and>
   Wait (fst (GoAll (New 4)
                (map (uploadUnit os_s3 ''bucket'' ''releases/1.2.3'' conf0) (Artifacts world5))
                world5)) =
     Some (Combined [External ''open dist/a2: no such file'',
                     External ''RequestError: send request failed''])"
proof -
  let ?X = "upload os_s3 apply0 ctx_s3 conf0 world5"
  let ?us = "map (uploadUnit os_s3 ''bucket'' ''releases/1.2.3'' conf0) (Artifacts world5)"
  let ?G = "GoAll (New 4) ?us world5"
  have gx: "?G = (fst ?G, snd ?G)" by simp
  have go: "errorsOf (outcomes ?us world5) =
      [External ''open dist/a2: no such file'', External ''RequestError: send request failed'']"
    by code_simp
  have "Wait (fst ?G) = (if errorsOf (outcomes ?us world5) = [] then None
                else Some (Combined (errorsOf (outcomes ?us world5))))"
    using C1_wait_combines_every_failure [of _ _ _ _ _ _ _ world5 _ _ 4 ?us "fst ?G" "snd ?G"] gx
    by blast
  then have gw: "Wait (fst ?G) =
     Some (Combined [External ''open dist/a2: no such file'',
                     External ''RequestError: send request failed''])"
    unfolding go by simp
  have b: "apply0 (Bucket conf0) = Inr ''bucket''" by code_simp
  have f: "apply0 (Folder conf0) = Inr ''releases/1.2.3''" by code_simp
  have k: "filtersOf (S3Artifacts conf0) [] = Inr [ByType UploadableArchive]"
    by (simp add: conf0_def artifactTypes_def)
  have s: "S3 (Config ctx_s3) \<noteq> []" "CheckPipe ctx_s3 ''s3'' = None"
    by (simp_all add: ctx_s3_def)
  have x: "?X = (fst ?X, snd ?X)" by simp
  have fl: "failures (since world5 (snd ?X)) =
      [External ''open dist/a2: no such file'', External ''RequestError: send request failed'']"
    by code_simp
  have ar: "List (Filter (Or [ByType UploadableArchive]) (Artifacts world5)) =
      [archive ''a1'', archive ''a2'', archive ''a3'', archive ''a4'', archive ''a5'']"
    by (simp add: List_def Filter_def Or_def ByType_def world5_def archive_def)
  have oc: "errorsOf (outcomes (map (upload os_s3 apply0 ctx_s3) (S3 (Config ctx_s3))) world5) =
      [Combined [External ''open dist/a2: no such file'',
                 External ''RequestError: send request failed'']]"
    by code_simp
  have aa: "map fst (trace (afterAll (map (upload os_s3 apply0 ctx_s3) (S3 (Config ctx_s3))) world5)) =
     [Open ''dist/a1'',
      PutObject ''bucket'' ''releases/1.2.3/a1'' ''dist/a1'' ''private'',
      Open ''dist/a2'',
      Open ''dist/a3'',
      PutObject ''bucket'' ''releases/1.2.3/a3'' ''dist/a3'' ''private'',
      Open ''dist/a4'',
      PutObject ''bucket'' ''releases/1.2.3/a4'' ''dist/a4'' ''private'',
      Open ''dist/a5'',
      PutObject ''bucket'' ''releases/1.2.3/a5'' ''dist/a5'' ''private'']"
    by code_simp
  note t = C1_wait_combines_every_failure [of apply0 conf0 "''bucket''" "''releases/1.2.3''"
      "[ByType UploadableArchive]" os_s3 ctx_s3 world5 "fst ?X" "snd ?X"]
  have u: "map fst (filter (isOpen \<circ> fst) (since world5 (snd ?X))) =
        map (\<lambda>a. Open (Path a)) (List (Filter (Or [ByType UploadableArchive]) (Artifacts world5)))"
      "length (failures (since world5 (snd ?X))) + length (filter putOK (since world5 (snd ?X))) =
        length (List (Filter (Or [ByType UploadableArchive]) (Artifacts world5)))"
      "fst ?X = (if failures (since world5 (snd ?X)) = [] then None
           else Some (Combined (failures (since world5 (snd ?X)))))"
      "fst (Publish os_s3 apply0 ctx_s3 world5) =
        (if errorsOf (outcomes (map (upload os_s3 apply0 ctx_s3) (S3 (Config ctx_s3))) world5) = []
         then None
         else Some (Combined
                (errorsOf (outcomes (map (upload os_s3 apply0 ctx_s3) (S3 (Config ctx_s3))) world5))))"
      "snd (Publish os_s3 apply0 ctx_s3 world5) =
        afterAll (map (upload os_s3 apply0 ctx_s3) (S3 (Config ctx_s3))) world5"
    using t b f k s x by blast+
  show ?thesis
    using b f k s u(1-4) aa gw unfolding fl ar oc u(5) by (simp add: archive_def)
qed

text \<open>
  C2: a failure to write the build descriptor does not stop the workflow. With a file
  system that refuses the write, \<open>Pipe.Run\<close> goes on to look up the build tool, runs
  the build and the signing, registers both artifacts and returns nil.
\<close>

theorem C2_write_error_is_dropped:
  "fst (Run os_nowrite env0 render0 ctx0 world0) = None \<and>
   take 4 (trace (snd (Run os_nowrite env0 render0 ctx0 world0))) =
     [(Getwd, ''/w'', None),
      (MkdirAll ''dist/alpine-app'', [], None),
      (WriteFile ''dist/alpine-app/APKBUILD'' ''pkgname=app'', [], Some ''disk full''),
      (LookPath ''abuild'', [], None)] \<and>
   toolSucceeded ''abuild'' (trace (snd (Run os_nowrite env0 render0 ctx0 world0))) \<and>
   toolSucceeded ''abuild-sign'' (trace (snd (Run os_nowrite env0 render0 ctx0 world0))) \<and>
   map Type (Artifacts (snd (Run os_nowrite env0 render0 ctx0 world0))) = [Binary, APK, APKIndex]"
  by code_simp

text \<open>
  The other half of C2 holds: a failure of the template engine is returned at once, and
  nothing is written.
\<close>

lemma runAlpine_template_error:
  assumes "sys os Getwd w = ((pwd, None), w1)"
    and "attempt os (MkdirAll (Join [Dist (Config ctx), ''alpine-'' @ AlpineName alp])) w1
           = (None, w2)"
    and "render \<lparr>Info = alp,
            Binaries = foldl (\<lambda>m b. let binary = Base (BuildBinary b)
                                    in m(binary \<mapsto> Join [''$pkgarch'', binary]))
                         Map.empty (Builds (Config ctx)),
            DataVersion = Version ctx, ProjectDir = [], MakeDepends = []\<rparr> = (out, Some m)"
  shows "runAlpine os e render ctx alp w = (Some (External m), w2)"
  using assms
  by (simp add: runAlpine_def Let_def generateApkBuildFile_def buildApkBuildFile_def)

text \<open>
  C3: the architecture switch of the packaging workflow is a total function given by a
  fixed table: 386 becomes x86, amd64 becomes x86_64, and every other name is returned
  unchanged.
\<close>

theorem C3_arch_translation_table:
  "alpineArch ''386'' = ''x86'' \<and> alpineArch ''amd64'' = ''x86_64'' \<and>
   (\<forall>a. a \<noteq> ''386'' \<and> a \<noteq> ''amd64'' \<longrightarrow> alpineArch a = a)"
  by (simp add: alpineArch_def)

theorem C3_arch_translation_table_witness:
  "''arm64'' \<noteq> ''386'' \<and> ''arm64'' \<noteq> ''amd64'' \<and> alpineArch ''arm64'' = ''arm64'' \<and>
   alpineArch ''386'' = ''x86'' \<and> alpineArch ''amd64'' = ''x86_64''"
  using C3_arch_translation_table by simp

text \<open>
  C4, as the code has it: for one selected binary, \<open>Pipe.Run\<close> registers the package as
  soon as the build tool has exited cleanly and before the signing tool is started, and
  registers the index only after the signing tool has exited cleanly. The body returns
  nil exactly when the signing tool succeeded; when the signing tool fails, the package of
  that architecture is in the registry and the index is not.
\<close>

theorem C4_index_after_signing_package_after_build:
  assumes "packageBinary os ctx alp pwd localPath localPathAbs repoPath pubKeyName bin w
             = (r, w')"
  shows "Artifacts w' = Artifacts w @ registered w w' \<and>
         trace w' = trace w @ since w w' \<and>
         (map Type (registered w w') = [] \<or> map Type (registered w w') = [APK] \<or>
          map Type (registered w w') = [APK, APKIndex]) \<and>
         (APKIndex \<in> set (map Type (registered w w')) \<longleftrightarrow>
            toolSucceeded ''abuild-sign'' (since w w')) \<and>
         (r = None \<longleftrightarrow> toolSucceeded ''abuild-sign'' (since w w')) \<and>
         (APK \<in> set (map Type (registered w w')) \<longleftrightarrow> toolSucceeded ''abuild'' (since w w')) \<and>
         (toolFailed ''abuild-sign'' (since w w') \<longrightarrow>
            map Type (registered w w') = [APK] \<and> r \<noteq> None)"
  using assms unfolding packageBinary_def Let_def
  by (rule body_cases) simp_all

theorem C4_index_after_signing_package_after_build_witness:
  "toolFailed ''abuild-sign''
     (since world0 (snd (packageBinary os_nosign ctx0 alp0 ''/w'' ''dist/alpine-app''
        ''/w/dist/alpine-app'' ''alpine/edge/main'' ''/keys'' bin0 world0))) \<and>
   map Type (registered world0 (snd (packageBinary os_nosign ctx0 alp0 ''/w'' ''dist/alpine-app''
        ''/w/dist/alpine-app'' ''alpine/edge/main'' ''/keys'' bin0 world0))) = [APK] \<and>
   fst (packageBinary os_nosign ctx0 alp0 ''/w'' ''dist/alpine-app''
        ''/w/dist/alpine-app'' ''alpine/edge/main'' ''/keys'' bin0 world0) \<noteq> None"
proof -
  let ?X = "packageBinary os_nosign ctx0 alp0 ''/w'' ''dist/alpine-app''
        ''/w/dist/alpine-app'' ''alpine/edge/main'' ''/keys'' bin0 world0"
  have f: "toolFailed ''abuild-sign'' (since world0 (snd ?X))" by code_simp
  have "?X = (fst ?X, snd ?X)" by simp
  from C4_index_after_signing_package_after_build [OF this]
  have "toolFailed ''abuild-sign'' (since world0 (snd ?X)) \<longrightarrow>
          map Type (registered world0 (snd ?X)) = [APK] \<and> fst ?X \<noteq> None"
    by (elim conjE)
  then show ?thesis using f by (intro conjI) (rule f, simp_all only: simp_thms)
qed

text \<open>
  The claim as stated fails: in a run whose signing tool exits with an error, the package
  of that architecture is already in the registry.
\<close>

theorem C4_package_registered_though_signing_failed:
  "toolFailed ''abuild-sign'' (since world0 (snd (Run os_nosign env0 render0 ctx0 world0))) \<and>
   \<not> toolSucceeded ''abuild-sign'' (since world0 (snd (Run os_nosign env0 render0 ctx0 world0))) \<and>
   map Type (registered world0 (snd (Run os_nosign env0 render0 ctx0 world0))) = [APK]"
  by code_simp

text \<open>
  C5, as the code has it: the binaries \<open>Pipe.Run\<close> selects are exactly the registered
  artifacts of kind \<open>Binary\<close> (the output of a build, not the uploadable binary) whose
  OS is linux and whose ARM variant is empty, in registration order; and every file a run
  opens or copies is the file of such an artifact of the registry.
\<close>

theorem C5_selects_plain_linux_binaries:
  "eligible arts = filter (\<lambda>a. Type a = Binary \<and> Goos a = ''linux'' \<and> Goarm a = []) arts \<and>
   (Run os e render ctx w = (r, w') \<longrightarrow>
      (\<forall>c rep. (c, rep) \<in> set (since w w') \<longrightarrow>
         (\<forall>p. c = Open p \<or> (\<exists>dst. c = Copy dst p) \<longrightarrow>
            (\<exists>a \<in> set (Artifacts w). Type a = Binary \<and> Goos a = ''linux'' \<and> Goarm a = [] \<and>
               Path a = p))))"
proof (intro conjI impI allI)
  show "eligible arts = filter (\<lambda>a. Type a = Binary \<and> Goos a = ''linux'' \<and> Goarm a = []) arts"
    unfolding eligible_eq by (rule filter_cong) auto
next
  fix c rep p
  assume run: "Run os e render ctx w = (r, w')" and m: "(c, rep) \<in> set (since w w')"
    and c: "c = Open p \<or> (\<exists>dst. c = Copy dst p)"
  have "list_all (opensOnly (eligible (Artifacts w))) (since w w')"
    using Run_grows [OF run] by (simp add: grows_def)
  then have "opensOnly (eligible (Artifacts w)) (c, rep)"
    using m by (simp add: list_all_iff)
  then have "p \<in> Path ` set (eligible (Artifacts w))"
    using c by auto
  then show "\<exists>a \<in> set (Artifacts w). Type a = Binary \<and> Goos a = ''linux'' \<and> Goarm a = [] \<and>
               Path a = p"
    by (auto simp: eligible_eq)
qed

theorem C5_selects_plain_linux_binaries_witness:
  "eligible [ubin0, bin0] = [bin0] \<and> fst (Run os_ok env0 render0 ctx0 world0) = None \<and>
   (Open ''dist/linux_amd64/app'', [], None) \<in> set (since world0 (snd (Run os_ok env0 render0 ctx0 world0))) \<and>
   (\<exists>a \<in> set (Artifacts world0). Type a = Binary \<and> Goos a = ''linux'' \<and> Goarm a = [] \<and>
      Path a = ''dist/linux_amd64/app'')"
proof -
  let ?X = "Run os_ok env0 render0 ctx0 world0"
  have r: "?X = (fst ?X, snd ?X)" by simp
  have m: "(Open ''dist/linux_amd64/app'', [], None) \<in> set (since world0 (snd ?X))" by code_simp
  have e: "eligible [ubin0, bin0] = [bin0]" by code_simp
  have n: "fst ?X = None" by code_simp
  from C5_selects_plain_linux_binaries [of "[ubin0, bin0]" os_ok env0 render0 ctx0 world0 "fst ?X" "snd ?X"]
    r m
  have "\<exists>a \<in> set (Artifacts world0). Type a = Binary \<and> Goos a = ''linux'' \<and> Goarm a = [] \<and>
      Path a = ''dist/linux_amd64/app''"
    by blast
  then show ?thesis using m e n by simp
qed

text \<open>
  The claim as stated fails: an uploadable binary for linux with no ARM variant is not
  selected.
\<close>

theorem C5_uploadable_binary_not_selected:
  "\<not> (\<forall>arts. eligible arts =
        filter (\<lambda>a. Type a = UploadableBinary \<and> Goos a = ''linux'' \<and> Goarm a = []) arts)"
proof
  assume "\<forall>arts. eligible arts =
        filter (\<lambda>a. Type a = UploadableBinary \<and> Goos a = ''linux'' \<and> Goarm a = []) arts"
  then have "eligible [ubin0] =
        filter (\<lambda>a. Type a = UploadableBinary \<and> Goos a = ''linux'' \<and> Goarm a = []) [ubin0]"
    by blast
  moreover have "eligible [ubin0] = []" by code_simp
  moreover have "filter (\<lambda>a. Type a = UploadableBinary \<and> Goos a = ''linux'' \<and> Goarm a = []) [ubin0]
      = [ubin0]" by (simp add: ubin0_def)
  ultimately show False by simp
qed

text \<open>
  C6: when either key path is empty, \<open>Pipe.Default\<close> returns \<open>ErrNoAlpineKeys\<close> for
  every configuration that has a package section; the check sits in the loop over the
  sections and returns at the first one. \<open>Default\<close> itself makes no call to the outside.
  The only configuration it accepts without keys has no section, and on that
  configuration \<open>Pipe.Run\<close> returns the skip signal and leaves the state as it was, so no
  external tool is started.
\<close>

theorem C6_missing_keys_are_fatal_before_any_work:
  assumes "pubKeyPath e = [] \<or> privKeyPath e = []"
  shows "(Alpine (Config ctx) \<noteq> [] \<longrightarrow> fst (Default e ctx) = Some ErrNoAlpineKeys) \<and>
         (fst (Default e ctx) = None \<longrightarrow>
            Run os e render (snd (Default e ctx)) w =
              (Some (Skip ''alpine section is not configured''), w))"
proof (cases "Alpine (Config ctx)")
  case Nil
  then show ?thesis by (simp add: Default_def Run_def)
next
  case (Cons a as)
  then show ?thesis using assms by (auto simp: Default_def)
qed

theorem C6_missing_keys_are_fatal_before_any_work_witness:
  "(pubKeyPath env_nokey = [] \<or> privKeyPath env_nokey = []) \<and> Alpine (Config ctx0) \<noteq> [] \<and>
   fst (Default env_nokey ctx0) = Some ErrNoAlpineKeys \<and>
   fst (Default env_nokey ctx_s3) = None \<and>
   Run os_ok env_nokey render0 (snd (Default env_nokey ctx_s3)) world0 =
     (Some (ErrSkip ''alpine section is not configured''), world0)"
proof -
  have k: "pubKeyPath env_nokey = [] \<or> privKeyPath env_nokey = []" by (simp add: env_nokey_def)
  have a: "Alpine (Config ctx0) \<noteq> []" by (simp add: ctx0_def)
  have d: "fst (Default env_nokey ctx_s3) = None" by (simp add: Default_def ctx_s3_def)
  from C6_missing_keys_are_fatal_before_any_work [OF k, of ctx0] a
  have x: "fst (Default env_nokey ctx0) = Some ErrNoAlpineKeys" by blast
  from C6_missing_keys_are_fatal_before_any_work [OF k, of ctx_s3 os_ok render0 world0] d
  have y: "Run os_ok env_nokey render0 (snd (Default env_nokey ctx_s3)) world0 =
     (Some (Skip ''alpine section is not configured''), world0)" by blast
  show ?thesis using k a d x y by (simp add: Skip_def)
qed

text \<open>
  \<open>Pipe.Run\<close> does not look at the keys itself: called on a configuration with a section
  while a key path is empty, it starts the build tool. The guarantee above rests on
  \<open>Default\<close> having run first and its error having stopped the release.
\<close>

lemma Run_does_not_check_keys:
  "toolSucceeded ''abuild'' (trace (snd (Run os_ok env_nokey render0 ctx0 world0)))"
  by code_simp

text \<open>
  C7, as the code has it: the kind names are looked up in the fixed table
  \<open>artifactTypes\<close>, whose keys are archive, binary, nfpm, checksum, signature, apk and
  apkindex. A destination that configures a name outside the table makes \<open>upload\<close> return
  an error with the state unchanged, so nothing is opened or uploaded. The templates of
  the bucket and the folder are resolved first: when both resolve, the error is the
  unknown-artifact-type error naming a configured name that is not in the table.
\<close>

theorem C7_unknown_kind_stops_upload:
  assumes "\<exists>s \<in> set (S3Artifacts conf). s \<notin> dom artifactTypes"
    and "upload os apply ctx conf w = (r, w')"
  shows "dom artifactTypes =
           {''apkindex'', ''apk'', ''signature'', ''checksum'', ''nfpm'', ''binary'',
            ''archive''} \<and>
         w' = w \<and> r \<noteq> None \<and>
         ((\<exists>b f. apply (Bucket conf) = Inr b \<and> apply (Folder conf) = Inr f) \<longrightarrow>
            (\<exists>s \<in> set (S3Artifacts conf). s \<notin> dom artifactTypes \<and>
               r = Some (Errorf (''unknown artifact type: '' @ s))))"
proof -
  have "\<exists>s \<in> set (S3Artifacts conf). artifactTypes s = None"
    using assms(1) by (auto simp: dom_def)
  from filtersOf_unknown [OF this, of "[]"] obtain s where
    s: "s \<in> set (S3Artifacts conf)" "artifactTypes s = None"
      "filtersOf (S3Artifacts conf) [] = Inl (Errorf (''unknown artifact type: '' @ s))"
    by blast
  have "s \<notin> dom artifactTypes" using s(2) by (simp add: dom_def)
  then show ?thesis
    using assms(2) s(1,3) dom_artifactTypes
    by (auto simp: upload_def split: sum.splits)
qed

theorem C7_unknown_kind_stops_upload_witness:
  "''deb'' \<in> set (S3Artifacts (conf0\<lparr>S3Artifacts := [''archive'', ''deb'']\<rparr>)) \<and>
   ''deb'' \<notin> dom artifactTypes \<and>
   upload os_ok apply0 ctx_s3 (conf0\<lparr>S3Artifacts := [''archive'', ''deb'']\<rparr>) world1 =
     (Some (Errorf ''unknown artifact type: deb''), world1)"
proof -
  let ?c = "conf0\<lparr>S3Artifacts := [''archive'', ''deb'']\<rparr>"
  let ?X = "upload os_ok apply0 ctx_s3 ?c world1"
  have d: "''deb'' \<notin> dom artifactTypes" by (simp add: dom_artifactTypes)
  have m: "''deb'' \<in> set (S3Artifacts ?c)" by simp
  have h: "\<exists>s \<in> set (S3Artifacts ?c). s \<notin> dom artifactTypes" using d m by blast
  have a: "\<exists>b f. apply0 (Bucket ?c) = Inr b \<and> apply0 (Folder ?c) = Inr f"
    by (simp add: apply0_def conf0_def)
  have x: "?X = (fst ?X, snd ?X)" by simp
  from C7_unknown_kind_stops_upload [OF h x] a
  have "snd ?X = world1" and
    "\<exists>s \<in> set (S3Artifacts ?c). s \<notin> dom artifactTypes \<and>
        fst ?X = Some (Errorf (''unknown artifact type: '' @ s))"
    by blast+
  then have "snd ?X = world1" "fst ?X = Some (Errorf ''unknown artifact type: deb'')"
    by (auto simp: dom_artifactTypes)
  then show ?thesis using d m by (metis prod.collapse)
qed

text \<open>
  The claim as stated fails: for a destination whose bucket template does not parse, a
  kind outside the vocabulary is never looked at, and the error returned is the one of
  the template engine.
\<close>

theorem C7_template_error_comes_first:
  "''deb'' \<in> set (S3Artifacts conf_bad) \<and> ''deb'' \<notin> dom artifactTypes \<and>
   upload os_ok apply0 ctx_s3 conf_bad world1 =
     (Some (External ''template: unclosed action''), world1) \<and>
   fst (upload os_ok apply0 ctx_s3 conf_bad world1) \<noteq>
     Some (Errorf ''unknown artifact type: deb'')"
proof -
  have "upload os_ok apply0 ctx_s3 conf_bad world1 =
     (Some (External ''template: unclosed action''), world1)"
    by (simp add: upload_def conf_bad_def apply0_def)
  then show ?thesis by (simp add: conf_bad_def dom_artifactTypes)
qed

text \<open>
  C8: in the upload fan-out of one destination the file of every matching artifact is
  opened, in registration order, and for every one of them whose file could be opened
  one object is put, under the key \<open>Join(folder, artifact.RepoDir, artifact.Name)\<close>, with
  the folder as the template engine resolved it, the bucket as resolved, the opened file
  as body and the access-control setting of the destination; nothing else is put. For the
  folder \<open>releases/1.2.3\<close>, a matching artifact named \<open>app_linux_amd64\<close> with an empty
  repository path whose file opens is put under \<open>releases/1.2.3/app_linux_amd64\<close>.
\<close>

theorem C8_object_key_is_joined_path:
  assumes "apply (Bucket conf) = Inr bucket" and "apply (Folder conf) = Inr folder"
    and "filtersOf (S3Artifacts conf) [] = Inr filters"
    and "upload os apply ctx conf w = (r, w')"
  shows "trace w' = trace w @ since w w' \<and>
         map fst (filter (isOpen \<circ> fst) (since w w')) =
           map (\<lambda>a. Open (Path a)) (List (Filter (Or filters) (Artifacts w))) \<and>
         map fst (filter (isPut \<circ> fst) (since w w')) =
           map (\<lambda>(a, e). PutObject bucket (Join [folder, RepoDir a, Name a]) (Path a) (ACL conf))
             (filter (\<lambda>(a, e). snd (snd e) = None)
                (zip (List (Filter (Or filters) (Artifacts w)))
                   (filter (isOpen \<circ> fst) (since w w')))) \<and>
         (\<forall>i < length (List (Filter (Or filters) (Artifacts w))).
            snd (snd (filter (isOpen \<circ> fst) (since w w') ! i)) = None \<longrightarrow>
            (\<exists>rep. (PutObject bucket
                       (Join [folder, RepoDir (List (Filter (Or filters) (Artifacts w)) ! i),
                              Name (List (Filter (Or filters) (Artifacts w)) ! i)])
                       (Path (List (Filter (Or filters) (Artifacts w)) ! i)) (ACL conf), rep)
                    \<in> set (since w w'))) \<and>
         (folder = ''releases/1.2.3'' \<longrightarrow>
            (\<forall>i < length (List (Filter (Or filters) (Artifacts w))).
               RepoDir (List (Filter (Or filters) (Artifacts w)) ! i) = [] \<and>
               Name (List (Filter (Or filters) (Artifacts w)) ! i) = ''app_linux_amd64'' \<and>
               snd (snd (filter (isOpen \<circ> fst) (since w w') ! i)) = None \<longrightarrow>
               (\<exists>rep. (PutObject bucket ''releases/1.2.3/app_linux_amd64''
                          (Path (List (Filter (Or filters) (Artifacts w)) ! i)) (ACL conf), rep)
                       \<in> set (since w w')))) \<and>
         (folder = ''releases/1.2.3'' \<longrightarrow>
            (\<forall>a. RepoDir a = [] \<and> Name a = ''app_linux_amd64'' \<longrightarrow>
               Join [folder, RepoDir a, Name a] = ''releases/1.2.3/app_linux_amd64''))"
proof -
  let ?arts = "List (Filter (Or filters) (Artifacts w))"
  let ?S = "since w w'"
  let ?O = "filter (isOpen \<circ> fst) ?S"
  let ?F = "\<lambda>(a, e). PutObject bucket (Join [folder, RepoDir a, Name a]) (Path a) (ACL conf)"
  from upload_resolved [OF assms] obtain g where
    g: "GoAll (New (Parallelism ctx)) (map (uploadUnit os bucket folder conf) ?arts) w = (g, w')"
    by blast
  from GoAll_upload [OF g] obtain nt where
    t: "trace w' = trace w @ nt"
      "map fst (filter (isOpen \<circ> fst) nt) = map (\<lambda>a. Open (Path a)) ?arts"
      "map fst (filter (isPut \<circ> fst) nt) =
         map ?F (filter (\<lambda>(a, e). snd (snd e) = None) (zip ?arts (filter (isOpen \<circ> fst) nt)))"
    by blast
  have s: "?S = nt" using t(1) by (rule since_append)
  have tr: "trace w' = trace w @ ?S" using t(1) s by simp
  have op: "map fst ?O = map (\<lambda>a. Open (Path a)) ?arts" using t(2) s by simp
  have pu: "map fst (filter (isPut \<circ> fst) ?S) =
              map ?F (filter (\<lambda>(a, e). snd (snd e) = None) (zip ?arts ?O))"
    using t(3) s by simp
  have len: "length ?O = length ?arts"
    using op by (metis length_map)
  have put: "\<exists>rep. (PutObject bucket (Join [folder, RepoDir (?arts ! i), Name (?arts ! i)])
                       (Path (?arts ! i)) (ACL conf), rep) \<in> set ?S"
    if i: "i < length ?arts" and ok: "snd (snd (?O ! i)) = None" for i
  proof -
    have "(?arts ! i, ?O ! i) \<in> set (zip ?arts ?O)"
      using i len by (auto simp: set_zip)
    then have "(?arts ! i, ?O ! i) \<in>
        set (filter (\<lambda>(a, e). snd (snd e) = None) (zip ?arts ?O))"
      using ok by simp
    then have "?F (?arts ! i, ?O ! i) \<in>
        set (map ?F (filter (\<lambda>(a, e). snd (snd e) = None) (zip ?arts ?O)))"
      unfolding set_map by (rule imageI)
    then have "?F (?arts ! i, ?O ! i) \<in> set (map fst (filter (isPut \<circ> fst) ?S))"
      using pu by simp
    then have "?F (?arts ! i, ?O ! i) \<in> fst ` set ?S" by auto
    then obtain x where x: "x \<in> set ?S" "fst x = ?F (?arts ! i, ?O ! i)"
      by (auto simp: image_iff)
    have "(fst x, snd x) \<in> set ?S" using x(1) by simp
    then show ?thesis unfolding x(2) prod.case by (rule exI)
  qed
  have k: "Join [''releases/1.2.3'', [], ''app_linux_amd64''] = ''releases/1.2.3/app_linux_amd64''"
    by code_simp
  have put': "\<exists>rep. (PutObject bucket ''releases/1.2.3/app_linux_amd64''
                          (Path (?arts ! i)) (ACL conf), rep) \<in> set ?S"
    if "folder = ''releases/1.2.3''" "i < length ?arts" "RepoDir (?arts ! i) = []"
      "Name (?arts ! i) = ''app_linux_amd64''" "snd (snd (?O ! i)) = None" for i
    using put [OF that(2,5)] that(1,3,4) k by simp
  show ?thesis
  proof (intro conjI allI impI)
    show "trace w' = trace w @ ?S" by (rule tr)
    show "map fst ?O = map (\<lambda>a. Open (Path a)) ?arts" by (rule op)
    show "map fst (filter (isPut \<circ> fst) ?S) =
            map ?F (filter (\<lambda>(a, e). snd (snd e) = None) (zip ?arts ?O))" by (rule pu)
  next
    fix i assume "i < length ?arts" "snd (snd (?O ! i)) = None"
    then show "\<exists>rep. (PutObject bucket (Join [folder, RepoDir (?arts ! i), Name (?arts ! i)])
                       (Path (?arts ! i)) (ACL conf), rep) \<in> set ?S"
      by (rule put)
  next
    fix i assume "folder = ''releases/1.2.3''" "i < length ?arts"
      "RepoDir (?arts ! i) = [] \<and> Name (?arts ! i) = ''app_linux_amd64'' \<and>
       snd (snd (?O ! i)) = None"
    then show "\<exists>rep. (PutObject bucket ''releases/1.2.3/app_linux_amd64''
                          (Path (?arts ! i)) (ACL conf), rep) \<in> set ?S"
      using put' by blast
  next
    fix a assume "folder = ''releases/1.2.3''" "RepoDir a = [] \<and> Name a = ''app_linux_amd64''"
    then show "Join [folder, RepoDir a, Name a] = ''releases/1.2.3/app_linux_amd64''"
      using k by simp
  qed
qed

theorem C8_object_key_is_joined_path_witness:
  "apply0 (Bucket conf0) = Inr ''bucket'' \<and> apply0 (Folder conf0) = Inr ''releases/1.2.3'' \<and>
   filtersOf (S3Artifacts conf0) [] = Inr [ByType UploadableArchive] \<and>
   fst (upload os_ok apply0 ctx_s3 conf0 world1) = None \<and>
   length (List (Filter (Or [ByType UploadableArchive]) (Artifacts world1))) = 1 \<and>
   Name (List (Filter (Or [ByType UploadableArchive]) (Artifacts world1)) ! 0) =
     ''app_linux_amd64'' \<and>
   RepoDir (List (Filter (Or [ByType UploadableArchive]) (Artifacts world1)) ! 0) = [] \<and>
   map fst (filter (isOpen \<circ> fst) (since world1 (snd (upload os_ok apply0 ctx_s3 conf0 world1)))) =
     [Open ''dist/app_linux_amd64''] \<and>
   map fst (filter (isPut \<circ> fst) (since world1 (snd (upload os_ok apply0 ctx_s3 conf0 world1)))) =
     [PutObject ''bucket'' ''releases/1.2.3/app_linux_amd64'' ''dist/app_linux_amd64''
        ''private''] \<and>
   (\<exists>rep. (PutObject ''bucket'' ''releases/1.2.3/app_linux_amd64'' ''dist/app_linux_amd64''
             ''private'', rep)
          \<in> set (since world1 (snd (upload os_ok apply0 ctx_s3 conf0 world1))))"
proof -
  let ?X = "upload os_ok apply0 ctx_s3 conf0 world1"
  let ?arts = "List (Filter (Or [ByType UploadableArchive]) (Artifacts world1))"
  let ?O = "filter (isOpen \<circ> fst) (since world1 (snd ?X))"
  have b: "apply0 (Bucket conf0) = Inr ''bucket''" by code_simp
  have f: "apply0 (Folder conf0) = Inr ''releases/1.2.3''" by code_simp
  have k: "filtersOf (S3Artifacts conf0) [] = Inr [ByType UploadableArchive]"
    by (simp add: conf0_def artifactTypes_def)
  have x: "?X = (fst ?X, snd ?X)" by simp
  have n: "fst ?X = None" by code_simp
  have ar: "?arts = [\<lparr>Type = UploadableArchive, Name = ''app_linux_amd64'',
                       Path = ''dist/app_linux_amd64'', Goos = ''linux'',
                       Goarch = ''amd64'', Goarm = [], RepoDir = [], Extra = []\<rparr>]"
    by (simp add: List_def Filter_def Or_def ByType_def world1_def bin0_def)
  have ok: "snd (snd (?O ! 0)) = None" by code_simp
  have acl: "ACL conf0 = ''private''" by (simp add: conf0_def)
  have z: "map (\<lambda>(a, e). PutObject ''bucket'' (Join [''releases/1.2.3'', RepoDir a, Name a])
                  (Path a) (ACL conf0))
             (filter (\<lambda>(a, e). snd (snd e) = None) (zip ?arts ?O)) =
     [PutObject ''bucket'' ''releases/1.2.3/app_linux_amd64'' ''dist/app_linux_amd64''
        ''private'']"
    by code_simp
  note t = C8_object_key_is_joined_path [OF b f k x]
  have o: "map fst ?O = map (\<lambda>a. Open (Path a)) ?arts"
    using t by blast
  have p: "map fst (filter (isPut \<circ> fst) (since world1 (snd ?X))) =
           map (\<lambda>(a, e). PutObject ''bucket'' (Join [''releases/1.2.3'', RepoDir a, Name a])
                  (Path a) (ACL conf0))
             (filter (\<lambda>(a, e). snd (snd e) = None) (zip ?arts ?O))"
    using t by blast
  have "\<forall>i < length ?arts.
               RepoDir (?arts ! i) = [] \<and> Name (?arts ! i) = ''app_linux_amd64'' \<and>
               snd (snd (?O ! i)) = None \<longrightarrow>
               (\<exists>rep. (PutObject ''bucket'' ''releases/1.2.3/app_linux_amd64''
                          (Path (?arts ! i)) (ACL conf0), rep)
                       \<in> set (since world1 (snd ?X)))"
    using t by blast
  then have "0 < length ?arts \<longrightarrow>
               RepoDir (?arts ! 0) = [] \<and> Name (?arts ! 0) = ''app_linux_amd64'' \<and>
               snd (snd (?O ! 0)) = None \<longrightarrow>
               (\<exists>rep. (PutObject ''bucket'' ''releases/1.2.3/app_linux_amd64''
                          (Path (?arts ! 0)) (ACL conf0), rep)
                       \<in> set (since world1 (snd ?X)))"
    by blast
  then have e: "\<exists>rep. (PutObject ''bucket'' ''releases/1.2.3/app_linux_amd64''
                  ''dist/app_linux_amd64'' ''private'', rep) \<in> set (since world1 (snd ?X))"
    using ok unfolding ar acl by simp
  have o': "map fst ?O = [Open ''dist/app_linux_amd64'']"
    using o unfolding ar by simp
  show ?thesis
    using b f k n o' e p [unfolded z] unfolding ar by simp
qed

text \<open>
  C9: with no destination configured \<open>Publish\<close> returns the skip signal of package
  \<open>pipe\<close>, and with no package section configured \<open>Run\<close> does; in both cases the state
  is left as it was. No other outcome of a configured stage is a skip: \<open>Publish\<close>, once
  its precondition check has passed, returns nil or the combined error of its task group,
  and it returns nil with the state unchanged when no artifact matches any destination;
  \<open>Run\<close> on a configuration with a section never returns a skip.
\<close>

theorem C9_not_configured_is_a_skip:
  "(S3 (Config ctx) = [] \<longrightarrow>
      Publish os apply ctx w = (Some (Skip ''s3 section is not configured''), w)) \<and>
   (Alpine (Config ctx) = [] \<longrightarrow>
      Run os e render ctx w = (Some (Skip ''alpine section is not configured''), w)) \<and>
   IsSkip (Skip reason) \<and>
   (S3 (Config ctx) \<noteq> [] \<and> CheckPipe ctx ''s3'' = None \<longrightarrow>
      noSkip (fst (Publish os apply ctx w)) \<and>
      (fst (Publish os apply ctx w) = None \<or>
       (\<exists>es. es \<noteq> [] \<and> fst (Publish os apply ctx w) = Some (Combined es)))) \<and>
   (S3 (Config ctx) \<noteq> [] \<and> CheckPipe ctx ''s3'' = None \<and>
    list_all (nothingToUpload apply w) (S3 (Config ctx)) \<longrightarrow>
      Publish os apply ctx w = (None, w)) \<and>
   (Alpine (Config ctx) \<noteq> [] \<longrightarrow> noSkip (fst (Run os e render ctx w)))"
proof (intro conjI impI)
  assume "S3 (Config ctx) = []"
  then show "Publish os apply ctx w = (Some (Skip ''s3 section is not configured''), w)"
    by (simp add: Publish_def)
next
  assume "Alpine (Config ctx) = []"
  then show "Run os e render ctx w = (Some (Skip ''alpine section is not configured''), w)"
    by (simp add: Run_def)
next
  show "IsSkip (Skip reason)" by (simp add: Skip_def)
next
  assume a: "S3 (Config ctx) \<noteq> [] \<and> CheckPipe ctx ''s3'' = None"
  obtain g w' where
    g: "GoAll (New (Parallelism ctx)) (map (upload os apply ctx) (S3 (Config ctx))) w = (g, w')"
    by (metis surj_pair)
  have p: "fst (Publish os apply ctx w) = Wait g" using a g by (simp add: Publish_def)
  show "noSkip (fst (Publish os apply ctx w))" unfolding p by (simp add: Wait_def)
  show "fst (Publish os apply ctx w) = None \<or>
       (\<exists>es. es \<noteq> [] \<and> fst (Publish os apply ctx w) = Some (Combined es))"
    unfolding p by (simp add: Wait_def)
next
  assume a: "S3 (Config ctx) \<noteq> [] \<and> CheckPipe ctx ''s3'' = None \<and>
    list_all (nothingToUpload apply w) (S3 (Config ctx))"
  then show "Publish os apply ctx w = (None, w)"
    by (simp add: Publish_def GoAll_nothing Wait_def New_def)
next
  assume "Alpine (Config ctx) \<noteq> []"
  then show "noSkip (fst (Run os e render ctx w))" by (rule Run_noSkip)
qed

theorem C9_not_configured_is_a_skip_witness:
  "S3 (Config ctx0) = [] \<and> Alpine (Config ctx_s3) = [] \<and>
   Publish os_ok apply0 ctx0 world0 = (Some (ErrSkip ''s3 section is not configured''), world0) \<and>
   Run os_ok env0 render0 ctx_s3 world0 =
     (Some (ErrSkip ''alpine section is not configured''), world0) \<and>
   S3 (Config ctx_s3) \<noteq> [] \<and> CheckPipe ctx_s3 ''s3'' = None \<and>
   list_all (nothingToUpload apply0 world0) (S3 (Config ctx_s3)) \<and>
   Publish os_ok apply0 ctx_s3 world0 = (None, world0) \<and>
   noSkip (fst (Publish os_s3 apply0 ctx_s3 world5)) \<and>
   Alpine (Config ctx0) \<noteq> [] \<and> noSkip (fst (Run os_nosign env0 render0 ctx0 world0))"
proof -
  have h1: "S3 (Config ctx0) = []" by (simp add: ctx0_def)
  have h2: "Alpine (Config ctx_s3) = []" by (simp add: ctx_s3_def)
  have h3: "S3 (Config ctx_s3) \<noteq> [] \<and> CheckPipe ctx_s3 ''s3'' = None"
    by (simp add: ctx_s3_def)
  have h4: "list_all (nothingToUpload apply0 world0) (S3 (Config ctx_s3))"
    by (simp add: ctx_s3_def nothingToUpload_def apply0_def conf0_def artifactTypes_def
          List_def Filter_def Or_def ByType_def world0_def bin0_def)
  have h5: "Alpine (Config ctx0) \<noteq> []" by (simp add: ctx0_def)
  note t1 = C9_not_configured_is_a_skip [of ctx0 os_ok apply0 world0 env0 render0 "[]"]
  note t2 = C9_not_configured_is_a_skip [of ctx_s3 os_ok apply0 world0 env0 render0 "[]"]
  note t3 = C9_not_configured_is_a_skip [of ctx_s3 os_s3 apply0 world5 env0 render0 "[]"]
  note t4 = C9_not_configured_is_a_skip [of ctx0 os_nosign apply0 world0 env0 render0 "[]"]
  have a: "Publish os_ok apply0 ctx0 world0 =
      (Some (Skip ''s3 section is not configured''), world0)"
    using t1 h1 by blast
  have b: "Run os_ok env0 render0 ctx_s3 world0 =
      (Some (Skip ''alpine section is not configured''), world0)"
    using t2 h2 by blast
  have c: "Publish os_ok apply0 ctx_s3 world0 = (None, world0)"
    using t2 h3 h4 by blast
  have d: "noSkip (fst (Publish os_s3 apply0 ctx_s3 world5))"
    using t3 h3 by blast
  have e: "noSkip (fst (Run os_nosign env0 render0 ctx0 world0))"
    using t4 h5 by blast
  show ?thesis
    using h1 h2 h3 h4 h5 a b c d e by (simp add: Skip_def)
qed

text \<open>
  C10, as the code has it: every artifact a run of the packaging workflow registers is a
  package or an index made from one configured section and one selected binary. It keeps
  the Go architecture of that binary in \<open>Goarch\<close>, has OS linux and no ARM variant, and
  carries the Alpine architecture in three places: in the metadata under \<open>AlpineArch\<close>,
  as the last element joined into the repository path, which is
  \<open>Join(root, branch, repository, arch)\<close> and ends in that name when the name is a plain
  path element, and as the directory joined into the local path of the file.
\<close>

theorem C10_registered_artifacts_keep_go_arch:
  assumes "Run os e render ctx w = (r, w')"
  shows "Artifacts w' = Artifacts w @ registered w w' \<and>
         list_all
           (\<lambda>a. \<exists>alp \<in> set (Alpine (Config ctx)). \<exists>bin \<in> set (eligible (Artifacts w)).
                  packagedFrom ctx alp bin a \<and>
                  (plain (alpineArch (Goarch bin)) \<longrightarrow>
                     last (splitSlash (RepoDir a)) = alpineArch (Goarch bin)))
           (registered w w')"
proof -
  have g: "grows (\<lambda>a. \<exists>alp\<in>set (Alpine (Config ctx)). \<exists>bin\<in>set (eligible (Artifacts w)).
                  packagedFrom ctx alp bin a)
           (opensOnly (eligible (Artifacts w))) w w'"
    using assms by (rule Run_grows)
  have "grows (\<lambda>a. \<exists>alp \<in> set (Alpine (Config ctx)). \<exists>bin \<in> set (eligible (Artifacts w)).
                  packagedFrom ctx alp bin a \<and>
                  (plain (alpineArch (Goarch bin)) \<longrightarrow>
                     last (splitSlash (RepoDir a)) = alpineArch (Goarch bin)))
           (opensOnly (eligible (Artifacts w))) w w'"
    using g by (rule grows_mono) (use packagedFrom_last_segment in blast)+
  then show ?thesis by (simp add: grows_def)
qed

theorem C10_registered_artifacts_keep_go_arch_witness:
  "fst (Run os_ok env0 render0 ctx0 world0) = None \<and>
   map Type (registered world0 (snd (Run os_ok env0 render0 ctx0 world0))) = [APK, APKIndex] \<and>
   plain (alpineArch (Goarch bin0)) \<and>
   list_all
     (\<lambda>a. Goarch a = ''amd64'' \<and> Goos a = ''linux'' \<and> Goarm a = [] \<and>
           Extra a = [(''AlpineArch'', ''x86_64'')] \<and>
           RepoDir a = ''alpine/edge/main/x86_64'' \<and>
           last (splitSlash (RepoDir a)) = ''x86_64'')
     (registered world0 (snd (Run os_ok env0 render0 ctx0 world0)))"
proof -
  let ?X = "Run os_ok env0 render0 ctx0 world0"
  have r: "?X = (fst ?X, snd ?X)" by simp
  have n: "fst ?X = None" by code_simp
  have t: "map Type (registered world0 (snd ?X)) = [APK, APKIndex]" by code_simp
  have p: "plain (alpineArch (Goarch bin0))" by code_simp
  have el: "eligible (Artifacts world0) = [bin0]" by code_simp
  have al: "Alpine (Config ctx0) = [alp0]" by (simp add: ctx0_def)
  have j: "Join [Root alp0, Branch alp0, Repository alp0, ''x86_64'']
             = ''alpine/edge/main/x86_64''" by code_simp
  have a: "alpineArch ''amd64'' = ''x86_64''" "Goarch bin0 = ''amd64''" by code_simp+
  have "list_all
     (\<lambda>a. packagedFrom ctx0 alp0 bin0 a \<and>
           (plain (alpineArch (Goarch bin0)) \<longrightarrow>
              last (splitSlash (RepoDir a)) = alpineArch (Goarch bin0)))
     (registered world0 (snd ?X))"
    using C10_registered_artifacts_keep_go_arch [OF r] by (simp add: el al)
  then have "list_all
     (\<lambda>a. Goarch a = ''amd64'' \<and> Goos a = ''linux'' \<and> Goarm a = [] \<and>
           Extra a = [(''AlpineArch'', ''x86_64'')] \<and>
           RepoDir a = ''alpine/edge/main/x86_64'' \<and>
           last (splitSlash (RepoDir a)) = ''x86_64'')
     (registered world0 (snd ?X))"
    unfolding list_all_iff using p by (auto simp: packagedFrom_def j a)
  then show ?thesis using n t p by simp
qed

text \<open>
  The claim as stated fails: the Alpine architecture also appears in the local
  path of the registered package, as the directory that holds the file.
\<close>

theorem C10_alpine_arch_in_local_path:
  "Goarch (last (Artifacts (snd (Run os_ok env0 render0 ctx0 world0)))) = ''amd64'' \<and>
   Path (last (Artifacts (snd (Run os_ok env0 render0 ctx0 world0)))) =
     ''dist/alpine-app/dist/x86_64/APKINDEX.tar.gz'' \<and>
   ''x86_64'' \<in> set (splitSlash (Path (last (Artifacts (snd (Run os_ok env0 render0 ctx0 world0))))))"
  by code_simp

end
